theory Spec2Isabelle
  imports Main "HOL-Library.Multiset"
begin

section \<open>Python values and exceptions\<close>

text \<open>
  Both entry points (\<^verbatim>\<open>main.py\<close> and \<^verbatim>\<open>mian.py\<close>) work on what
  \<^verbatim>\<open>response.json()\<close> and \<^verbatim>\<open>json.loads\<close> return: \<^verbatim>\<open>None\<close>, booleans, numbers,
  strings, lists and dictionaries with string keys. Numbers are restricted to integers
  here. A dictionary is an association list read from the left (\<open>map_of\<close>); a
  dictionary built by Python has no repeated key.
\<close>

datatype json =
    JNull
  | JBool bool
  | JInt int
  | JStr string
  | JList "json list"
  | JDict "(string \<times> json) list"

datatype py_error =
    KeyError
  | TypeError
  | AttributeError
  | NameError
  | ValueError
  | RequestException

text \<open>A raise is \<open>Inl\<close>; \<open>ebind\<close> sequences two steps and stops at the first raise.\<close>

definition ebind :: "'e + 'a \<Rightarrow> ('a \<Rightarrow> 'e + 'b) \<Rightarrow> 'e + 'b" where
  "ebind m f = (case m of Inl e \<Rightarrow> Inl e | Inr x \<Rightarrow> f x)"

text \<open>A \<^verbatim>\<open>for\<close> loop that updates an accumulator and may raise in its body.\<close>

fun efold :: "('a \<Rightarrow> 's \<Rightarrow> 'e + 's) \<Rightarrow> 'a list \<Rightarrow> 's \<Rightarrow> 'e + 's" where
  "efold f [] s = Inr s"
| "efold f (x # xs) s = ebind (f x s) (efold f xs)"

text \<open>\<^verbatim>\<open>obj[key]\<close> with a string key: only a dictionary can be subscripted by a string.\<close>

fun py_getitem :: "json \<Rightarrow> string \<Rightarrow> py_error + json" where
  "py_getitem (JDict kvs) k = (case map_of kvs k of None \<Rightarrow> Inl KeyError | Some v \<Rightarrow> Inr v)"
| "py_getitem JNull k = Inl TypeError"
| "py_getitem (JBool b) k = Inl TypeError"
| "py_getitem (JInt n) k = Inl TypeError"
| "py_getitem (JStr s) k = Inl TypeError"
| "py_getitem (JList xs) k = Inl TypeError"

text \<open>\<^verbatim>\<open>obj.get(key, default)\<close>: a method of dictionaries only.\<close>

fun py_get :: "json \<Rightarrow> string \<Rightarrow> json \<Rightarrow> py_error + json" where
  "py_get (JDict kvs) k d = Inr (case map_of kvs k of None \<Rightarrow> d | Some v \<Rightarrow> v)"
| "py_get JNull k d = Inl AttributeError"
| "py_get (JBool b) k d = Inl AttributeError"
| "py_get (JInt n) k d = Inl AttributeError"
| "py_get (JStr s) k d = Inl AttributeError"
| "py_get (JList xs) k d = Inl AttributeError"

text \<open>
  \<^verbatim>\<open>for x in obj\<close>: a list yields its elements, a string its characters, a dictionary
  its keys; \<^verbatim>\<open>None\<close>, booleans and integers are not iterable.
\<close>

fun py_iter :: "json \<Rightarrow> py_error + json list" where
  "py_iter (JList xs) = Inr xs"
| "py_iter (JStr s) = Inr (map (\<lambda>c. JStr [c]) s)"
| "py_iter (JDict kvs) = Inr (map (\<lambda>kv. JStr (fst kv)) kvs)"
| "py_iter JNull = Inl TypeError"
| "py_iter (JBool b) = Inl TypeError"
| "py_iter (JInt n) = Inl TypeError"

text \<open>Truth value testing (\<^verbatim>\<open>if x:\<close>, \<^verbatim>\<open>not x\<close>).\<close>

fun py_truthy :: "json \<Rightarrow> bool" where
  "py_truthy JNull = False"
| "py_truthy (JBool b) = b"
| "py_truthy (JInt n) = (n \<noteq> 0)"
| "py_truthy (JStr s) = (s \<noteq> [])"
| "py_truthy (JList xs) = (xs \<noteq> [])"
| "py_truthy (JDict kvs) = (kvs \<noteq> [])"

text \<open>Lists and dictionaries are unhashable: adding one to a set raises \<^verbatim>\<open>TypeError\<close>.\<close>

fun py_hashable :: "json \<Rightarrow> bool" where
  "py_hashable (JList xs) = False"
| "py_hashable (JDict kvs) = False"
| "py_hashable JNull = True"
| "py_hashable (JBool b) = True"
| "py_hashable (JInt n) = True"
| "py_hashable (JStr s) = True"

text \<open>
  Python's \<^verbatim>\<open>==\<close> where one side is hashable: \<^verbatim>\<open>True == 1\<close> and \<^verbatim>\<open>False == 0\<close>
  (with equal hashes), every other hashable value equals only itself, and no list or
  dictionary equals a hashable value. The mappers compare option names only, all of which
  went through \<^verbatim>\<open>set.add\<close> first.
\<close>

fun py_key :: "json \<Rightarrow> json" where
  "py_key (JBool b) = JInt (if b then 1 else 0)"
| "py_key JNull = JNull"
| "py_key (JInt n) = JInt n"
| "py_key (JStr s) = JStr s"
| "py_key (JList xs) = JList xs"
| "py_key (JDict kvs) = JDict kvs"

definition py_eq :: "json \<Rightarrow> json \<Rightarrow> bool" where
  "py_eq a b = (py_key a = py_key b)"

text \<open>
  A Python set is kept as the list of its members in insertion order. \<^verbatim>\<open>set.add\<close>
  raises on an unhashable value and leaves the set alone when an equal member is there.
  The order in which a set is iterated is not fixed by the language: the mappers take it
  as a parameter, a function from the insertion-ordered members to the iteration order.
\<close>

definition py_set_add :: "json list \<Rightarrow> json \<Rightarrow> py_error + json list" where
  "py_set_add s x =
     (if \<not> py_hashable x then Inl TypeError
      else if \<exists>y \<in> set s. py_eq y x then Inr s
      else Inr (s @ [x]))"

definition set_iteration :: "(json list \<Rightarrow> json list) \<Rightarrow> bool" where
  "set_iteration iter = (\<forall>s. mset (iter s) = mset s)"

section \<open>The field mapper of main.py\<close>

text \<open>
  Lines 41-43: the names of all attributes of all variants, collected in a set.
\<close>

definition add_attribute_name :: "json \<Rightarrow> json list \<Rightarrow> py_error + json list" where
  "add_attribute_name attribute option_names =
     ebind (py_getitem attribute ''name'') (\<lambda>name. py_set_add option_names name)"

definition add_variant_names :: "json \<Rightarrow> json list \<Rightarrow> py_error + json list" where
  "add_variant_names variant option_names =
     ebind (py_getitem variant ''attributes'') (\<lambda>attributes.
     ebind (py_iter attributes) (\<lambda>attrs.
       efold add_attribute_name attrs option_names))"

definition collect_option_names :: "json \<Rightarrow> py_error + json list" where
  "collect_option_names ciq_product =
     ebind (py_getitem ciq_product ''variants'') (\<lambda>variants.
     ebind (py_iter variants) (\<lambda>vs.
       efold add_variant_names vs []))"

text \<open>
  Line 52: \<^verbatim>\<open>next((attr['value'] for attr in ... if attr['name'] == option_name), None)\<close>.
  The generator reads \<^verbatim>\<open>attr['value']\<close> of the first attribute whose name matches and of
  no other.
\<close>

fun first_value :: "json \<Rightarrow> json list \<Rightarrow> py_error + json" where
  "first_value option_name [] = Inr JNull"
| "first_value option_name (attr # attrs) =
     ebind (py_getitem attr ''name'') (\<lambda>name.
       if py_eq name option_name then py_getitem attr ''value''
       else first_value option_name attrs)"

text \<open>Lines 50-54: one pass of the inner loop over the option names.\<close>

definition add_option_value :: "json \<Rightarrow> json \<Rightarrow> json list \<Rightarrow> py_error + json list" where
  "add_option_value variant option_name option_values =
     ebind (py_getitem variant ''attributes'') (\<lambda>attributes.
     ebind (py_iter attributes) (\<lambda>attrs.
     ebind (first_value option_name attrs) (\<lambda>attribute_value.
       if py_truthy attribute_value
       then Inr (option_values @
              [JDict [(''optionName'', option_name), (''name'', attribute_value)]])
       else Inr option_values)))"

text \<open>Lines 48-59: the body of the loop over the variants.\<close>

definition map_variant ::
  "json list \<Rightarrow> json \<Rightarrow> json list \<Rightarrow> py_error + json list" where
  "map_variant names variant shopify_variants =
     ebind (efold (add_option_value variant) names []) (\<lambda>option_values.
     ebind (py_getitem variant ''default_code'') (\<lambda>sku.
       Inr (shopify_variants @
         [JDict [(''sku'', sku), (''optionValues'', JList option_values)]])))"

definition map_variants :: "json list \<Rightarrow> json \<Rightarrow> py_error + json list" where
  "map_variants names ciq_product =
     ebind (py_getitem ciq_product ''variants'') (\<lambda>variants.
     ebind (py_iter variants) (\<lambda>vs.
       efold (map_variant names) vs []))"

text \<open>Lines 65-68: the values of one option over all variants, in order.\<close>

definition add_attribute_value :: "json \<Rightarrow> json \<Rightarrow> json list \<Rightarrow> py_error + json list" where
  "add_attribute_value option_name attribute vals =
     ebind (py_getitem attribute ''name'') (\<lambda>name.
       if py_eq name option_name
       then ebind (py_getitem attribute ''value'') (\<lambda>v. Inr (vals @ [v]))
       else Inr vals)"

definition add_variant_values :: "json \<Rightarrow> json \<Rightarrow> json list \<Rightarrow> py_error + json list" where
  "add_variant_values option_name variant vals =
     ebind (py_getitem variant ''attributes'') (\<lambda>attributes.
     ebind (py_iter attributes) (\<lambda>attrs.
       efold (add_attribute_value option_name) attrs vals))"

text \<open>
  Line 71: \<^verbatim>\<open>[dict(t) for t in {tuple(d.items()) for d in values}]\<close>. Each \<^verbatim>\<open>d\<close> is
  \<^verbatim>\<open>{"name": v}\<close>, so the tuples are \<^verbatim>\<open>(("name", v),)\<close>: hashing one hashes \<^verbatim>\<open>v\<close>, and
  two are equal when their \<^verbatim>\<open>v\<close> are. The set is kept as the list of its \<^verbatim>\<open>v\<close>.
\<close>

definition unique_values ::
  "(json list \<Rightarrow> json list) \<Rightarrow> json list \<Rightarrow> py_error + json list" where
  "unique_values values_iter vals =
     ebind (efold (\<lambda>v s. py_set_add s v) vals []) (\<lambda>s.
       Inr (map (\<lambda>v. JDict [(''name'', v)]) (values_iter s)))"

text \<open>Lines 63-76: the body of the loop that builds \<^verbatim>\<open>product_options\<close>.\<close>

definition add_product_option ::
  "(json list \<Rightarrow> json list) \<Rightarrow> json \<Rightarrow> json \<Rightarrow> json list \<Rightarrow> py_error + json list" where
  "add_product_option values_iter ciq_product option_name product_options =
     ebind (py_getitem ciq_product ''variants'') (\<lambda>variants.
     ebind (py_iter variants) (\<lambda>vs.
     ebind (efold (add_variant_values option_name) vs []) (\<lambda>vals.
     ebind (unique_values values_iter vals) (\<lambda>uniq.
       Inr (product_options @
         [JDict [(''name'', option_name), (''values'', JList uniq)]])))))"

definition build_product_options ::
  "(json list \<Rightarrow> json list) \<Rightarrow> json list \<Rightarrow> json \<Rightarrow> py_error + json list" where
  "build_product_options values_iter names ciq_product =
     efold (add_product_option values_iter ciq_product) names []"

text \<open>
  Lines 84-90: the metafields comprehension. Its filter
  \<^verbatim>\<open>if ciq_product['attributes']\<close> is evaluated once per attribute.
\<close>

fun metafields_of :: "json \<Rightarrow> json list \<Rightarrow> py_error + json list" where
  "metafields_of ciq_product [] = Inr []"
| "metafields_of ciq_product (attribute # rest) =
     ebind (py_getitem ciq_product ''attributes'') (\<lambda>guard.
       if py_truthy guard
       then
         ebind (py_getitem attribute ''category'') (\<lambda>namespace.
         ebind (py_getitem attribute ''description'') (\<lambda>description.
         ebind (py_getitem attribute ''name'') (\<lambda>key.
         ebind (py_getitem attribute ''value'') (\<lambda>val.
         ebind (metafields_of ciq_product rest) (\<lambda>ms.
           Inr (JDict [(''namespace'', namespace), (''description'', description),
                       (''key'', key), (''value'', val), (''type'', JStr ''string'')]
                # ms))))))
       else metafields_of ciq_product rest)"

definition metafields :: "json \<Rightarrow> py_error + json list" where
  "metafields ciq_product =
     ebind (py_getitem ciq_product ''attributes'') (\<lambda>attributes.
     ebind (py_iter attributes) (\<lambda>attrs.
       metafields_of ciq_product attrs))"

text \<open>
  Line 81 of main.py:
  \<^verbatim>\<open>'' if not ciq_product.get('description_sale') else ciq_product.get('description_sale', '')\<close>.
\<close>

definition description_html :: "json \<Rightarrow> py_error + json" where
  "description_html ciq_product =
     ebind (py_get ciq_product ''description_sale'' JNull) (\<lambda>d.
       if \<not> py_truthy d then Inr (JStr '''')
       else py_get ciq_product ''description_sale'' (JStr ''''))"

text \<open>
  \<^verbatim>\<open>map_catalogiq_to_shopify\<close> of main.py (lines 35-91). \<open>names_iter\<close> is the
  iteration order of the set \<^verbatim>\<open>option_names\<close>, \<open>values_iter\<close> that of the set of
  line 71.
\<close>

definition map_catalogiq_to_shopify ::
  "(json list \<Rightarrow> json list) \<Rightarrow> (json list \<Rightarrow> json list) \<Rightarrow> json \<Rightarrow> py_error + json" where
  "map_catalogiq_to_shopify names_iter values_iter ciq_product =
     ebind (collect_option_names ciq_product) (\<lambda>option_names.
     ebind (map_variants (names_iter option_names) ciq_product) (\<lambda>shopify_variants.
     ebind (build_product_options values_iter (names_iter option_names) ciq_product)
       (\<lambda>product_options.
     ebind (py_getitem ciq_product ''name'') (\<lambda>title.
     ebind (description_html ciq_product) (\<lambda>description.
     ebind (metafields ciq_product) (\<lambda>mfs.
       Inr (JDict [(''title'', title),
                   (''vendor'', JStr ''Vendor Name''),
                   (''descriptionHtml'', description),
                   (''productOptions'', JList product_options),
                   (''variants'', JList shopify_variants),
                   (''metafields'', JList mfs)])))))))"

section \<open>The field mapper of mian.py\<close>

text \<open>
  The second entry point repeats the mapper with two differences: the loop that maps the
  variants runs over \<^verbatim>\<open>ciq_product['variants'][:99]\<close> (line 53), and
  \<^verbatim>\<open>descriptionHtml\<close> is \<^verbatim>\<open>ciq_product.get('description_sale', '')\<close> (line 86).
  Lines 46-48 and 67-81 are those of main.py.

  \<^verbatim>\<open>obj[:n]\<close>: a list or a string is cut to its first \<open>n\<close> items; slicing a dictionary
  raises (\<^verbatim>\<open>TypeError\<close> up to Python 3.11, \<^verbatim>\<open>KeyError\<close> from 3.12; the model
  takes the former), as does slicing \<^verbatim>\<open>None\<close>, a boolean or an integer.
\<close>
fun py_slice_to :: "nat \<Rightarrow> json \<Rightarrow> py_error + json" where
  "py_slice_to n (JList xs) = Inr (JList (take n xs))"
| "py_slice_to n (JStr s) = Inr (JStr (take n s))"
| "py_slice_to n (JDict kvs) = Inl TypeError"
| "py_slice_to n JNull = Inl TypeError"
| "py_slice_to n (JBool b) = Inl TypeError"
| "py_slice_to n (JInt i) = Inl TypeError"

definition map_variants_mian :: "json list \<Rightarrow> json \<Rightarrow> py_error + json list" where
  "map_variants_mian names ciq_product =
     ebind (py_getitem ciq_product ''variants'') (\<lambda>variants.
     ebind (py_slice_to 99 variants) (\<lambda>first.
     ebind (py_iter first) (\<lambda>vs.
       efold (map_variant names) vs [])))"

definition description_html_mian :: "json \<Rightarrow> py_error + json" where
  "description_html_mian ciq_product = py_get ciq_product ''description_sale'' (JStr '''')"

definition map_catalogiq_to_shopify_mian ::
  "(json list \<Rightarrow> json list) \<Rightarrow> (json list \<Rightarrow> json list) \<Rightarrow> json \<Rightarrow> py_error + json" where
  "map_catalogiq_to_shopify_mian names_iter values_iter ciq_product =
     ebind (collect_option_names ciq_product) (\<lambda>option_names.
     ebind (map_variants_mian (names_iter option_names) ciq_product) (\<lambda>shopify_variants.
     ebind (build_product_options values_iter (names_iter option_names) ciq_product)
       (\<lambda>product_options.
     ebind (py_getitem ciq_product ''name'') (\<lambda>title.
     ebind (description_html_mian ciq_product) (\<lambda>description.
     ebind (metafields ciq_product) (\<lambda>mfs.
       Inr (JDict [(''title'', title),
                   (''vendor'', JStr ''Vendor Name''),
                   (''descriptionHtml'', description),
                   (''productOptions'', JList product_options),
                   (''variants'', JList shopify_variants),
                   (''metafields'', JList mfs)])))))))"

section \<open>Well-formed source products\<close>

text \<open>
  The fields the mapper reads, and the shape it needs of each: \<open>field_ok P d k\<close> says
  that \<^verbatim>\<open>d[k]\<close> is there and satisfies \<open>P\<close>, \<open>items_ok P j\<close> that \<open>j\<close> can be
  iterated and each item satisfies \<open>P\<close>.
\<close>

definition field_ok :: "(json \<Rightarrow> bool) \<Rightarrow> json \<Rightarrow> string \<Rightarrow> bool" where
  "field_ok P d k = (case py_getitem d k of Inl e \<Rightarrow> False | Inr v \<Rightarrow> P v)"

definition items_ok :: "(json \<Rightarrow> bool) \<Rightarrow> json \<Rightarrow> bool" where
  "items_ok P j = (case py_iter j of Inl e \<Rightarrow> False | Inr xs \<Rightarrow> list_all P xs)"

definition wf_variant_attribute :: "json \<Rightarrow> bool" where
  "wf_variant_attribute a =
     (field_ok py_hashable a ''name'' \<and> field_ok py_hashable a ''value'')"

definition wf_variant :: "json \<Rightarrow> bool" where
  "wf_variant v =
     (field_ok (items_ok wf_variant_attribute) v ''attributes'' \<and>
      field_ok (\<lambda>x. True) v ''default_code'')"

definition wf_product_attribute :: "json \<Rightarrow> bool" where
  "wf_product_attribute a =
     (field_ok (\<lambda>x. True) a ''category'' \<and> field_ok (\<lambda>x. True) a ''description'' \<and>
      field_ok (\<lambda>x. True) a ''name'' \<and> field_ok (\<lambda>x. True) a ''value'')"

definition wf_product :: "json \<Rightarrow> bool" where
  "wf_product p =
     (field_ok (items_ok wf_variant) p ''variants'' \<and>
      field_ok (\<lambda>x. True) p ''name'' \<and>
      field_ok (items_ok wf_product_attribute) p ''attributes'')"

section \<open>Reading source products and mapped products\<close>

text \<open>
  The properties of the mapper are stated with readers that never fail: \<open>field k d\<close> is
  \<^verbatim>\<open>d[k]\<close> where the key is there, \<open>items j\<close> the items of \<open>j\<close> where it is
  iterable. Whenever a mapping succeeds, every field it read was there, and the readers
  return what the mapper read.
\<close>

definition field :: "string \<Rightarrow> json \<Rightarrow> json" where
  "field k d = (case py_getitem d k of Inl e \<Rightarrow> JNull | Inr v \<Rightarrow> v)"

definition items :: "json \<Rightarrow> json list" where
  "items j = (case py_iter j of Inl e \<Rightarrow> [] | Inr xs \<Rightarrow> xs)"

definition variants_of :: "json \<Rightarrow> json list" where
  "variants_of p = items (field ''variants'' p)"

definition attributes_of :: "json \<Rightarrow> json list" where
  "attributes_of v = items (field ''attributes'' v)"

text \<open>The names of all attributes of all variants, in the order of the source.\<close>

definition attribute_names :: "json \<Rightarrow> json list" where
  "attribute_names p =
     concat (map (\<lambda>v. map (field ''name'') (attributes_of v)) (variants_of p))"

text \<open>
  \<open>named n a\<close>: attribute \<open>a\<close> is named \<open>n\<close>, as Python compares names.
  \<open>assigned_values n vs\<close>: the values the variants \<open>vs\<close> assign to axis \<open>n\<close>, one per
  attribute of that name. \<open>first_named n v\<close>: the first attribute of variant \<open>v\<close> named
  \<open>n\<close>.
\<close>

definition named :: "json \<Rightarrow> json \<Rightarrow> bool" where
  "named n a = py_eq (field ''name'' a) n"

definition assigned_values :: "json \<Rightarrow> json list \<Rightarrow> json list" where
  "assigned_values n vs =
     concat (map (\<lambda>v. map (field ''value'') (filter (named n) (attributes_of v))) vs)"

definition first_named :: "json \<Rightarrow> json \<Rightarrow> json option" where
  "first_named n v = find (named n) (attributes_of v)"

text \<open>
  What the loops compute, as plain functions; the lemmas \<open>map_variants_eq\<close>,
  \<open>build_product_options_eq\<close> and \<open>collect_option_names_eq\<close> prove that a loop that
  returns has computed just this. \<open>insert_key\<close> is \<^verbatim>\<open>set.add\<close> of a hashable value;
  \<open>option_names_of\<close> is the set \<^verbatim>\<open>option_names\<close> in insertion order;
  \<open>mapped_variant\<close> is the dictionary appended at lines 56-59 and \<open>option_entry\<close> the
  entry appended at lines 53-54, if any; \<open>mapped_option\<close> is the dictionary appended at
  lines 73-76.
\<close>

definition insert_key :: "json list \<Rightarrow> json \<Rightarrow> json list" where
  "insert_key s x = (if \<exists>y \<in> set s. py_eq y x then s else s @ [x])"

definition option_names_of :: "json \<Rightarrow> json list" where
  "option_names_of p = foldl insert_key [] (attribute_names p)"

definition option_entry :: "json \<Rightarrow> json \<Rightarrow> json list" where
  "option_entry v n =
     (case first_named n v of
        None \<Rightarrow> []
      | Some a \<Rightarrow>
          if py_truthy (field ''value'' a)
          then [JDict [(''optionName'', n), (''name'', field ''value'' a)]]
          else [])"

definition mapped_variant :: "json list \<Rightarrow> json \<Rightarrow> json" where
  "mapped_variant names v =
     JDict [(''sku'', field ''default_code'' v),
            (''optionValues'', JList (concat (map (option_entry v) names)))]"

definition mapped_option :: "(json list \<Rightarrow> json list) \<Rightarrow> json list \<Rightarrow> json \<Rightarrow> json" where
  "mapped_option values_iter vs n =
     JDict [(''name'', n),
            (''values'', JList (map (\<lambda>v. JDict [(''name'', v)])
                (values_iter (foldl insert_key [] (assigned_values n vs)))))]"

section \<open>Example products\<close>

text \<open>
  Scenario 1 of the specification: two variants, sizes \<^verbatim>\<open>S\<close> and \<^verbatim>\<open>M\<close>. The second
  variant has a colour as well.
\<close>

definition two_sizes :: json where
  "two_sizes =
     JDict [(''name'', JStr ''Lamp''),
            (''variants'', JList
               [JDict [(''default_code'', JStr ''L-S''),
                       (''attributes'', JList
                          [JDict [(''name'', JStr ''Size''), (''value'', JStr ''S'')]])],
                JDict [(''default_code'', JStr ''L-M''),
                       (''attributes'', JList
                          [JDict [(''name'', JStr ''Size''), (''value'', JStr ''M'')],
                           JDict [(''name'', JStr ''Color''), (''value'', JStr ''Red'')]])]]),
            (''attributes'', JList [])]"

text \<open>One variant whose \<^verbatim>\<open>Size\<close> attribute has the empty string as its value.\<close>

definition blank_size :: json where
  "blank_size =
     JDict [(''name'', JStr ''Lamp''),
            (''variants'', JList
               [JDict [(''default_code'', JStr ''L-1''),
                       (''attributes'', JList
                          [JDict [(''name'', JStr ''Size''), (''value'', JStr '''')]])]]),
            (''attributes'', JList [])]"

text \<open>
  A hundred variants: ninety-nine of size \<^verbatim>\<open>S\<close>, then one of size \<^verbatim>\<open>XL\<close>. The
  description is \<^verbatim>\<open>null\<close>.
\<close>

definition hundred_variants :: json where
  "hundred_variants =
     JDict [(''name'', JStr ''Lamp''),
            (''description_sale'', JNull),
            (''variants'', JList
               (replicate 99
                  (JDict [(''default_code'', JStr ''L-S''),
                          (''attributes'', JList
                             [JDict [(''name'', JStr ''Size''), (''value'', JStr ''S'')]])])
                @ [JDict [(''default_code'', JStr ''L-XL''),
                          (''attributes'', JList
                             [JDict [(''name'', JStr ''Size''), (''value'', JStr ''XL'')]])]])),
            (''attributes'', JList [])]"

section \<open>The world outside\<close>

text \<open>
  Every call that leaves the process is an event of a trace: \<^verbatim>\<open>requests.get\<close>,
  \<^verbatim>\<open>requests.post\<close>, \<^verbatim>\<open>time.sleep\<close>, \<^verbatim>\<open>publisher.publish\<close> and the \<^verbatim>\<open>sg.send\<close> of
  the completion email. \<^verbatim>\<open>print\<close> is not recorded, and \<^verbatim>\<open>os.getenv\<close> neither raises
  nor changes anything. A request is kept by what tells it apart: the GraphQL documents are
  string literals, so a \<^verbatim>\<open>productSet\<close> mutation is kept by its \<^verbatim>\<open>input\<close>, a status
  query by the operation id formatted into it, and a \<^verbatim>\<open>productCreateMedia\<close> mutation by
  its \<^verbatim>\<open>alt\<close>, \<^verbatim>\<open>originalSource\<close> and \<^verbatim>\<open>productId\<close>.
\<close>

type_synonym bytes = string

datatype request =
    ProductSet json
  | ProductOperation json
  | ProductCreateMedia string json json

datatype event =
    Get int
  | Post request
  | Sleep
  | Publish bytes
  | SendMail

text \<open>
  What a \<^verbatim>\<open>requests\<close> call returns, as far as the code reads it: \<^verbatim>\<open>status_code\<close>, and
  what \<^verbatim>\<open>.json()\<close> returns or raises.
\<close>

record response =
  status_code :: int
  json_body :: "py_error + json"

text \<open>
  The world of one invocation: the iteration orders of the two sets of the mapper, the
  reply to the one GET (by its offset), the reply to the \<open>k\<close>-th POST of the invocation,
  and what \<^verbatim>\<open>publisher.publish\<close> raises, if anything. A reply is \<open>Inl\<close> when the call
  raises. The program is sequential and its requests are determined by the replies so far,
  so numbering the POSTs loses nothing.
\<close>

record world =
  names_order :: "json list \<Rightarrow> json list"
  values_order :: "json list \<Rightarrow> json list"
  get_reply :: "int \<Rightarrow> py_error + response"
  post_reply :: "nat \<Rightarrow> py_error + response"
  publish_raises :: "py_error option"

record state =
  posts :: nat
  trace :: "event list"

definition initial :: state where
  "initial = \<lparr>posts = 0, trace = []\<rparr>"

definition emit :: "event \<Rightarrow> state \<Rightarrow> state" where
  "emit e s = s\<lparr>trace := trace s @ [e]\<rparr>"

text \<open>
  A step that may raise and may change the state; \<open>sbind\<close> sequences two of them,
  \<open>lift\<close> is a step that only computes, \<open>sfold\<close> a \<^verbatim>\<open>for\<close> loop of steps.
\<close>

definition sbind ::
  "(state \<Rightarrow> (py_error + 'a) \<times> state) \<Rightarrow> ('a \<Rightarrow> state \<Rightarrow> (py_error + 'b) \<times> state) \<Rightarrow>
   state \<Rightarrow> (py_error + 'b) \<times> state" where
  "sbind m f s = (case m s of (Inl e, s') \<Rightarrow> (Inl e, s') | (Inr x, s') \<Rightarrow> f x s')"

definition lift :: "py_error + 'a \<Rightarrow> state \<Rightarrow> (py_error + 'a) \<times> state" where
  "lift r s = (r, s)"

fun sfold ::
  "('a \<Rightarrow> state \<Rightarrow> (py_error + unit) \<times> state) \<Rightarrow> 'a list \<Rightarrow>
   state \<Rightarrow> (py_error + unit) \<times> state" where
  "sfold f [] s = (Inr (), s)"
| "sfold f (x # xs) s = sbind (f x) (\<lambda>u. sfold f xs) s"

definition requests_get :: "world \<Rightarrow> int \<Rightarrow> state \<Rightarrow> (py_error + response) \<times> state" where
  "requests_get w offset s = (get_reply w offset, emit (Get offset) s)"

definition requests_post ::
  "world \<Rightarrow> request \<Rightarrow> state \<Rightarrow> (py_error + response) \<times> state" where
  "requests_post w r s = (post_reply w (posts s), emit (Post r) (s\<lparr>posts := Suc (posts s)\<rparr>))"

text \<open>
  \<^verbatim>\<open>'errors' in response_data\<close> (line 245): a key of a dictionary, an item of a list, a
  substring of a string; \<^verbatim>\<open>None\<close>, booleans and integers are not containers.
\<close>

fun is_substring :: "string \<Rightarrow> string \<Rightarrow> bool" where
  "is_substring k [] = (k = [])"
| "is_substring k (c # cs) = (take (length k) (c # cs) = k \<or> is_substring k cs)"

fun py_in :: "string \<Rightarrow> json \<Rightarrow> py_error + bool" where
  "py_in k (JDict kvs) = Inr (k \<in> set (map fst kvs))"
| "py_in k (JList xs) = Inr (JStr k \<in> set xs)"
| "py_in k (JStr s) = Inr (is_substring k s)"
| "py_in k JNull = Inl TypeError"
| "py_in k (JBool b) = Inl TypeError"
| "py_in k (JInt n) = Inl TypeError"

section \<open>Offsets on the wire\<close>

text \<open>
  \<^verbatim>\<open>str(offset)\<close> of an integer: its decimal digits, after a minus sign when it is
  negative.
\<close>

definition digit_char :: "nat \<Rightarrow> char" where
  "digit_char d = char_of (of_char CHR ''0'' + d)"

function nat_digits :: "nat \<Rightarrow> string" where
  "nat_digits n = (if n < 10 then [digit_char n] else nat_digits (n div 10) @ [digit_char (n mod 10)])"
  by pat_completeness auto
termination
  by (relation "measure id") auto

definition py_str :: "int \<Rightarrow> string" where
  "py_str n = (if n < 0 then CHR ''-'' # nat_digits (nat (- n)) else nat_digits (nat n))"

text \<open>
  \<^verbatim>\<open>int(x)\<close> of a JSON value. A string is stripped of surrounding whitespace, may start
  with one sign, and is a run of decimal digits in which single underscores may separate
  digits; anything else raises \<^verbatim>\<open>ValueError\<close>. (Digits outside ASCII are not modelled.)
  An integer is itself, a boolean is \<^verbatim>\<open>0\<close> or \<^verbatim>\<open>1\<close>; \<^verbatim>\<open>None\<close>, lists and
  dictionaries raise \<^verbatim>\<open>TypeError\<close>.
\<close>

definition digit_val :: "char \<Rightarrow> nat option" where
  "digit_val c =
     (if of_char CHR ''0'' \<le> (of_char c :: nat) \<and> (of_char c :: nat) \<le> of_char CHR ''9''
      then Some (of_char c - of_char CHR ''0'') else None)"

fun digits_value :: "nat \<Rightarrow> string \<Rightarrow> nat option" where
  "digits_value acc [] = Some acc"
| "digits_value acc [c] =
     (case digit_val c of None \<Rightarrow> None | Some v \<Rightarrow> Some (10 * acc + v))"
| "digits_value acc (c # d # cs) =
     (if c = CHR ''_''
      then (case digit_val d of None \<Rightarrow> None | Some v \<Rightarrow> digits_value (10 * acc + v) cs)
      else (case digit_val c of None \<Rightarrow> None | Some v \<Rightarrow> digits_value (10 * acc + v) (d # cs)))"

definition unsigned_value :: "string \<Rightarrow> nat option" where
  "unsigned_value s =
     (case s of
        [] \<Rightarrow> None
      | c # cs \<Rightarrow> (case digit_val c of None \<Rightarrow> None | Some v \<Rightarrow> digits_value v cs))"

definition is_space :: "char \<Rightarrow> bool" where
  "is_space c = (c \<in> set [CHR '' '', CHR 0x09, CHR 0x0A, CHR 0x0B, CHR 0x0C, CHR 0x0D])"

definition strip :: "string \<Rightarrow> string" where
  "strip s = rev (dropWhile is_space (rev (dropWhile is_space s)))"

definition int_of_string :: "string \<Rightarrow> py_error + int" where
  "int_of_string s =
     (case strip s of
        [] \<Rightarrow> Inl ValueError
      | c # cs \<Rightarrow>
          if c = CHR ''-''
          then (case unsigned_value cs of None \<Rightarrow> Inl ValueError | Some n \<Rightarrow> Inr (- int n))
          else if c = CHR ''+''
          then (case unsigned_value cs of None \<Rightarrow> Inl ValueError | Some n \<Rightarrow> Inr (int n))
          else (case unsigned_value (c # cs) of None \<Rightarrow> Inl ValueError | Some n \<Rightarrow> Inr (int n)))"

fun py_int :: "json \<Rightarrow> py_error + int" where
  "py_int (JStr s) = int_of_string s"
| "py_int (JInt n) = Inr n"
| "py_int (JBool b) = Inr (if b then 1 else 0)"
| "py_int JNull = Inl TypeError"
| "py_int (JList xs) = Inl TypeError"
| "py_int (JDict kvs) = Inl TypeError"

text \<open>
  For the proofs: \<open>is_digit c\<close> says that \<open>c\<close> is one of \<^verbatim>\<open>0\<close> to \<^verbatim>\<open>9\<close>, and
  \<open>digit_step\<close> is the value of a run of digits, one digit at a time.
\<close>

definition is_digit :: "char \<Rightarrow> bool" where
  "is_digit c = (\<exists>d<10. c = digit_char d)"

definition digit_step :: "nat \<Rightarrow> char \<Rightarrow> nat" where
  "digit_step acc c = 10 * acc + (of_char c - 48)"

text \<open>
  The library functions between an offset and the wire are taken as they are documented:
  \<^verbatim>\<open>json.dumps\<close> and \<^verbatim>\<open>json.loads\<close>, \<^verbatim>\<open>str.encode('utf-8')\<close> and
  \<^verbatim>\<open>bytes.decode('utf-8')\<close>, the base64 text that Pub/Sub puts into
  \<^verbatim>\<open>message.data\<close> of the event it delivers, and \<^verbatim>\<open>base64.b64decode\<close>. \<open>wire_roundtrip\<close>
  is what their documentation promises for an offset message: decoding undoes encoding.
\<close>

record wire =
  json_dumps :: "json \<Rightarrow> string"
  json_loads :: "string \<Rightarrow> py_error + json"
  utf8_encode :: "string \<Rightarrow> bytes"
  utf8_decode :: "bytes \<Rightarrow> py_error + string"
  b64encode :: "bytes \<Rightarrow> string"
  b64decode :: "string \<Rightarrow> py_error + bytes"

definition wire_roundtrip :: "wire \<Rightarrow> bool" where
  "wire_roundtrip c =
     ((\<forall>s. json_loads c (json_dumps c (JDict [(''offset'', JStr s)]))
            = Inr (JDict [(''offset'', JStr s)])) \<and>
      (\<forall>t. utf8_decode c (utf8_encode c t) = Inr t) \<and>
      (\<forall>b. b64decode c (b64encode c b) = Inr b))"

text \<open>Lines 27-31 of main.py: \<^verbatim>\<open>publish_offset\<close>, and the bytes it publishes.\<close>

definition offset_message :: "wire \<Rightarrow> int \<Rightarrow> bytes" where
  "offset_message c offset =
     utf8_encode c (json_dumps c (JDict [(''offset'', JStr (py_str offset))]))"

definition publish_offset ::
  "wire \<Rightarrow> world \<Rightarrow> int \<Rightarrow> state \<Rightarrow> (py_error + unit) \<times> state" where
  "publish_offset c w offset s =
     ((case publish_raises w of None \<Rightarrow> Inr () | Some e \<Rightarrow> Inl e),
      emit (Publish (offset_message c offset)) s)"

text \<open>
  The event Pub/Sub delivers for published bytes, as far as \<^verbatim>\<open>process_product\<close> reads
  it: \<^verbatim>\<open>cloud_event.data['message']['data']\<close> is the base64 text of the bytes.
\<close>

definition pubsub_event :: "wire \<Rightarrow> bytes \<Rightarrow> json" where
  "pubsub_event c b = JDict [(''message'', JDict [(''data'', JStr (b64encode c b))])]"

text \<open>
  \<^verbatim>\<open>base64.b64decode\<close> of a JSON value: a string is decoded, anything else raises
  \<^verbatim>\<open>TypeError\<close>.
\<close>

fun py_b64decode :: "wire \<Rightarrow> json \<Rightarrow> py_error + bytes" where
  "py_b64decode c (JStr s) = b64decode c s"
| "py_b64decode c JNull = Inl TypeError"
| "py_b64decode c (JBool b) = Inl TypeError"
| "py_b64decode c (JInt n) = Inl TypeError"
| "py_b64decode c (JList xs) = Inl TypeError"
| "py_b64decode c (JDict kvs) = Inl TypeError"

text \<open>Lines 260-262 of main.py: the offset \<^verbatim>\<open>process_product\<close> reads from its event.\<close>

definition decode_offset :: "wire \<Rightarrow> json \<Rightarrow> py_error + int" where
  "decode_offset c cloud_event_data =
     ebind (py_getitem cloud_event_data ''message'') (\<lambda>message.
     ebind (py_getitem message ''data'') (\<lambda>d.
     ebind (py_b64decode c d) (\<lambda>raw.
     ebind (utf8_decode c raw) (\<lambda>text.
     ebind (json_loads c text) (\<lambda>data.
     ebind (py_getitem data ''offset'') (\<lambda>offset.
       py_int offset))))))"

section \<open>The operation poller of main.py\<close>

text \<open>
  One pass of the \<^verbatim>\<open>while True\<close> loop of \<^verbatim>\<open>check_operation_status\<close> (lines 120-131):
  the status query is posted and its reply read. The pass ends the loop with the triple
  to return, or it sleeps and the loop goes on; any step of it may raise.
\<close>

datatype poll = Complete json json json | Pending

definition read_status :: "json \<Rightarrow> py_error + poll" where
  "read_status status_data =
     ebind (py_getitem status_data ''data'') (\<lambda>d.
     ebind (py_getitem d ''productOperation'') (\<lambda>operation.
     ebind (py_getitem operation ''status'') (\<lambda>status.
       if py_eq status (JStr ''COMPLETE'')
       then
         ebind (py_getitem operation ''product'') (\<lambda>product.
         ebind (if product = JNull then Inr JNull else py_get product ''id'' JNull)
           (\<lambda>product_id.
         ebind (py_getitem operation ''userErrors'') (\<lambda>user_errors.
           Inr (Complete status product_id user_errors))))
       else Inr Pending)))"

definition poll_once :: "world \<Rightarrow> json \<Rightarrow> state \<Rightarrow> (py_error + poll) \<times> state" where
  "poll_once w operation_id =
     sbind (requests_post w (ProductOperation operation_id)) (\<lambda>response.
     sbind (lift (json_body response)) (\<lambda>status_data.
     sbind (lift (read_status status_data)) (\<lambda>p s.
       case p of
         Complete status product_id user_errors \<Rightarrow> (Inr p, s)
       | Pending \<Rightarrow> (Inr p, emit Sleep s))))"

text \<open>
  The loop itself. It has no bound: where it never returns and never raises, the value is
  \<open>None\<close>.
\<close>

partial_function (option) check_operation_status ::
  "world \<Rightarrow> json \<Rightarrow> state \<Rightarrow> ((py_error + json \<times> json \<times> json) \<times> state) option" where
  "check_operation_status w operation_id s =
     (case poll_once w operation_id s of
        (Inl e, s') \<Rightarrow> Some (Inl e, s')
      | (Inr (Complete status product_id user_errors), s') \<Rightarrow>
          Some (Inr (status, product_id, user_errors), s')
      | (Inr Pending, s') \<Rightarrow> check_operation_status w operation_id s')"

text \<open>
  What a reply to a status query reports, read as the loop reads it: the
  \<^verbatim>\<open>productOperation\<close> object of the reply and its \<^verbatim>\<open>status\<close>, where the call
  returned, the body parsed and the fields are there.
\<close>

definition reported_operation :: "py_error + response \<Rightarrow> py_error + json" where
  "reported_operation reply =
     ebind reply (\<lambda>response.
     ebind (json_body response) (\<lambda>status_data.
     ebind (py_getitem status_data ''data'') (\<lambda>d.
       py_getitem d ''productOperation'')))"

definition reported_status :: "py_error + response \<Rightarrow> py_error + json" where
  "reported_status reply =
     ebind (reported_operation reply) (\<lambda>operation. py_getitem operation ''status'')"

text \<open>
  \<open>reports_pending\<close>: the reply reports a status other than \<^verbatim>\<open>COMPLETE\<close>.
  \<open>reports_complete\<close>: the reply reports \<^verbatim>\<open>COMPLETE\<close> with the fields of the query
  (line 100-116): a \<^verbatim>\<open>product\<close> that is \<^verbatim>\<open>null\<close> or an object, and \<^verbatim>\<open>userErrors\<close>.
\<close>

definition reports_pending :: "py_error + response \<Rightarrow> bool" where
  "reports_pending reply =
     (case reported_status reply of
        Inl e \<Rightarrow> False
      | Inr status \<Rightarrow> status \<noteq> JStr ''COMPLETE'')"

definition is_object :: "json \<Rightarrow> bool" where
  "is_object j = (case j of JDict kvs \<Rightarrow> True | _ \<Rightarrow> False)"

definition reports_complete :: "py_error + response \<Rightarrow> json \<Rightarrow> json \<Rightarrow> bool" where
  "reports_complete reply product user_errors =
     (case reported_operation reply of
        Inl e \<Rightarrow> False
      | Inr operation \<Rightarrow>
          py_getitem operation ''status'' = Inr (JStr ''COMPLETE'') \<and>
          py_getitem operation ''product'' = Inr product \<and>
          (product = JNull \<or> is_object product) \<and>
          py_getitem operation ''userErrors'' = Inr user_errors)"

text \<open>The \<open>n\<close> passes that found the operation pending, and the pass that ended the loop.\<close>

definition polled :: "json \<Rightarrow> nat \<Rightarrow> state \<Rightarrow> state" where
  "polled operation_id n s =
     \<lparr>posts = posts s + n + 1,
      trace = trace s @ concat (replicate n [Post (ProductOperation operation_id), Sleep])
                @ [Post (ProductOperation operation_id)]\<rparr>"

section \<open>Creating one product: main.py\<close>

text \<open>
  Lines 232-250, the body of the loop over the additional images. Both \<^verbatim>\<open>if\<close>
  statements only print and \<^verbatim>\<open>continue\<close>; the membership test can raise.
\<close>

definition attach_image :: "world \<Rightarrow> json \<Rightarrow> json \<Rightarrow> state \<Rightarrow> (py_error + unit) \<times> state" where
  "attach_image w product_id img =
     sbind (lift (py_getitem img ''url'')) (\<lambda>url.
     sbind (requests_post w (ProductCreateMedia ''Image'' url product_id)) (\<lambda>image_response.
     sbind (lift (json_body image_response)) (\<lambda>response_data.
     sbind (lift (py_in ''errors'' response_data)) (\<lambda>has_errors.
       lift (Inr ())))))"

text \<open>Lines 180-250: the main image, then the additional images.\<close>

definition attach_media :: "world \<Rightarrow> json \<Rightarrow> json \<Rightarrow> state \<Rightarrow> (py_error + unit) \<times> state" where
  "attach_media w ciq_product product_id =
     sbind (lift (py_getitem ciq_product ''main_image'')) (\<lambda>main_image.
     sbind (if py_truthy main_image
            then sbind (requests_post w (ProductCreateMedia ''Main Image'' main_image product_id))
                   (\<lambda>main_image_response. lift (Inr ()))
            else lift (Inr ())) (\<lambda>u.
     sbind (lift (py_getitem ciq_product ''images'')) (\<lambda>images.
       if py_truthy images
       then sbind (lift (py_getitem ciq_product ''images'')) (\<lambda>images'.
            sbind (lift (py_iter images')) (\<lambda>imgs.
              sfold (attach_image w product_id) imgs))
       else lift (Inr ()))))"

text \<open>
  Lines 139-168 up to the call of the poller: the product is mapped, the mutation posted,
  and the operation id read from the reply.
\<close>

definition submit_product ::
  "world \<Rightarrow> json \<Rightarrow> state \<Rightarrow> (py_error + response \<times> json) \<times> state" where
  "submit_product w ciq_product =
     sbind (lift (map_catalogiq_to_shopify (names_order w) (values_order w) ciq_product))
       (\<lambda>mapped_product.
     sbind (requests_post w (ProductSet mapped_product)) (\<lambda>response.
     sbind (lift (json_body response)) (\<lambda>new_prod_response_json.
     sbind (lift (ebind (py_getitem new_prod_response_json ''data'') (\<lambda>d.
                  ebind (py_getitem d ''productSet'') (\<lambda>ps.
                  ebind (py_getitem ps ''productSetOperation'') (\<lambda>operation.
                    py_getitem operation ''id''))))) (\<lambda>operation_id.
       lift (Inr (response, operation_id))))))"

text \<open>
  Lines 174-254: the \<^verbatim>\<open>try\<close> block around the media, whose \<^verbatim>\<open>except Exception\<close>
  prints and goes on, and the final \<^verbatim>\<open>return response.json()\<close>.
\<close>

definition finish_product ::
  "world \<Rightarrow> json \<Rightarrow> response \<Rightarrow> json \<Rightarrow> state \<Rightarrow> (py_error + json) \<times> state" where
  "finish_product w ciq_product response product_id s =
     (let s' = (if py_truthy product_id then snd (attach_media w ciq_product product_id s)
                else s)
      in (json_body response, s'))"

text \<open>\<^verbatim>\<open>sync_products_to_shopify\<close> (lines 138-254). \<open>None\<close>: the poller never returns.\<close>

definition sync_products_to_shopify ::
  "world \<Rightarrow> json \<Rightarrow> state \<Rightarrow> ((py_error + json) \<times> state) option" where
  "sync_products_to_shopify w ciq_product s =
     (case submit_product w ciq_product s of
        (Inl e, s1) \<Rightarrow> Some (Inl e, s1)
      | (Inr (response, operation_id), s1) \<Rightarrow>
          (case check_operation_status w operation_id s1 of
             None \<Rightarrow> None
           | Some (Inl e, s2) \<Rightarrow> Some (Inl e, s2)
           | Some (Inr (status, product_id, user_errors), s2) \<Rightarrow>
               Some (finish_product w ciq_product response product_id s2)))"

section \<open>One invocation: main.py\<close>

text \<open>
  \<^verbatim>\<open>send_completion_email\<close> (lines 336-349): the mail is sent inside a \<^verbatim>\<open>try\<close> whose
  handler prints, so the call returns whatever SendGrid does.
\<close>

definition send_completion_email :: "state \<Rightarrow> state" where
  "send_completion_email s = emit SendMail s"

text \<open>
  Lines 304-312: the loop over the page. Whether \<^verbatim>\<open>sync_products_to_shopify\<close> returns
  or raises, the loop goes on with the next product (the handler of line 310 prints and
  continues).
\<close>

fun process_page :: "world \<Rightarrow> json list \<Rightarrow> state \<Rightarrow> state option" where
  "process_page w [] s = Some s"
| "process_page w (product # rest) s =
     (case sync_products_to_shopify w product s of
        None \<Rightarrow> None
      | Some (r, s') \<Rightarrow> process_page w rest s')"

text \<open>
  \<^verbatim>\<open>sync_products\<close> (lines 268-316). The result is what the call returns (\<^verbatim>\<open>None\<close> is
  \<open>JNull\<close>) or raises, with the final state; \<open>None\<close> when it never returns.
\<close>

definition sync_products ::
  "wire \<Rightarrow> world \<Rightarrow> int \<Rightarrow> ((py_error + json) \<times> state) option" where
  "sync_products c w offset =
     (case requests_get w offset initial of
        (Inl e, s1) \<Rightarrow> Some (Inl e, s1)
      | (Inr response_catalogiq, s1) \<Rightarrow>
          if status_code response_catalogiq \<noteq> 200 then Some (Inr JNull, s1)
          else
            (case ebind (json_body response_catalogiq) (\<lambda>product_data.
                    py_getitem product_data ''results'') of
               Inl e \<Rightarrow> Some (Inl e, s1)
             | Inr products \<Rightarrow>
                 if \<not> py_truthy products
                 then Some (Inr (JStr ''Sync Complete!''), send_completion_email s1)
                 else
                   (case py_iter products of
                      Inl e \<Rightarrow> Some (Inl e, s1)
                    | Inr ps \<Rightarrow>
                        (case process_page w ps s1 of
                           None \<Rightarrow> None
                         | Some s2 \<Rightarrow>
                             (case publish_offset c w (offset + 1) s2 of
                                (Inl e, s3) \<Rightarrow> Some (Inl e, s3)
                              | (Inr u, s3) \<Rightarrow>
                                  Some (Inr (JStr ''Product Complete!''), s3))))))"

text \<open>
  \<^verbatim>\<open>process_product\<close> (lines 258-263): the offset is read from the event and
  \<^verbatim>\<open>sync_products\<close> called with it.
\<close>

definition process_product ::
  "wire \<Rightarrow> world \<Rightarrow> json \<Rightarrow> ((py_error + json) \<times> state) option" where
  "process_product c w cloud_event_data =
     (case decode_offset c cloud_event_data of
        Inl e \<Rightarrow> Some (Inl e, initial)
      | Inr offset \<Rightarrow>
          (case sync_products c w offset of
             None \<Rightarrow> None
           | Some (r, s) \<Rightarrow> Some (case r of Inl e \<Rightarrow> Inl e | Inr x \<Rightarrow> Inr JNull, s)))"

text \<open>What a trace submitted and what it published.\<close>

fun submissions :: "event list \<Rightarrow> json list" where
  "submissions [] = []"
| "submissions (Post (ProductSet m) # t) = m # submissions t"
| "submissions (e # t) = submissions t"

fun publications :: "event list \<Rightarrow> bytes list" where
  "publications [] = []"
| "publications (Publish b # t) = b # publications t"
| "publications (e # t) = publications t"

fun notifications :: "event list \<Rightarrow> nat" where
  "notifications [] = 0"
| "notifications (SendMail # t) = Suc (notifications t)"
| "notifications (e # t) = notifications t"

section \<open>The second entry point: mian.py\<close>

text \<open>
  \<^verbatim>\<open>sync_products_to_shopify\<close> of mian.py (lines 100-210). The mutation is synchronous,
  so there is no poller: the product id is read from the reply of the mutation, inside
  the \<^verbatim>\<open>try\<close> block. The mapper (line 101), the POST (line 126) and \<^verbatim>\<open>response.json()\<close>
  (line 128) stand before the \<^verbatim>\<open>try\<close>. Lines 137-206 are lines 180-250 of main.py.
\<close>

definition submit_product_mian ::
  "world \<Rightarrow> json \<Rightarrow> state \<Rightarrow> (py_error + response \<times> json) \<times> state" where
  "submit_product_mian w ciq_product =
     sbind (lift (map_catalogiq_to_shopify_mian (names_order w) (values_order w) ciq_product))
       (\<lambda>mapped_product.
     sbind (requests_post w (ProductSet mapped_product)) (\<lambda>response.
     sbind (lift (json_body response)) (\<lambda>prod_response_json.
       lift (Inr (response, prod_response_json)))))"

definition attach_media_mian ::
  "world \<Rightarrow> json \<Rightarrow> json \<Rightarrow> state \<Rightarrow> (py_error + unit) \<times> state" where
  "attach_media_mian w ciq_product prod_response_json =
     sbind (lift (ebind (py_getitem prod_response_json ''data'') (\<lambda>d.
                  ebind (py_getitem d ''productSet'') (\<lambda>ps.
                  ebind (py_getitem ps ''product'') (\<lambda>product.
                    py_getitem product ''id''))))) (\<lambda>product_id.
       attach_media w ciq_product product_id)"

definition sync_products_to_shopify_mian ::
  "world \<Rightarrow> json \<Rightarrow> state \<Rightarrow> (py_error + json) \<times> state" where
  "sync_products_to_shopify_mian w ciq_product =
     sbind (submit_product_mian w ciq_product) (\<lambda>(response, prod_response_json) s.
       (json_body response, snd (attach_media_mian w ciq_product prod_response_json s)))"

text \<open>
  \<^verbatim>\<open>sync_products\<close> of mian.py (lines 216-259). Line 232 reads the global name
  \<^verbatim>\<open>access_token\<close>, which mian.py never binds (line 222 binds
  \<^verbatim>\<open>shopify_access_token\<close>). The lookup is the parameter \<open>access_token\<close>: \<open>None\<close> is the
  module as it is, where the lookup raises \<^verbatim>\<open>NameError\<close> before the GET; \<open>Some t\<close> is
  the module with the name bound. The loop of lines 251-255 has no \<^verbatim>\<open>try\<close>: it stops at
  the first product whose processing raises.
\<close>

definition sync_products_mian ::
  "wire \<Rightarrow> world \<Rightarrow> json option \<Rightarrow> int \<Rightarrow> (py_error + json) \<times> state" where
  "sync_products_mian c w access_token offset =
     (case access_token of
        None \<Rightarrow> (Inl NameError, initial)
      | Some token \<Rightarrow>
          (case requests_get w offset initial of
             (Inl e, s1) \<Rightarrow> (Inl e, s1)
           | (Inr response_catalogiq, s1) \<Rightarrow>
               if status_code response_catalogiq \<noteq> 200 then (Inr JNull, s1)
               else
                 (case ebind (json_body response_catalogiq) (\<lambda>product_data.
                         py_getitem product_data ''results'') of
                    Inl e \<Rightarrow> (Inl e, s1)
                  | Inr products \<Rightarrow>
                      if \<not> py_truthy products
                      then (Inr (JStr ''Sync Complete!''), send_completion_email s1)
                      else
                        sbind (lift (py_iter products)) (\<lambda>ps.
                        sbind (sfold (\<lambda>product.
                                 sbind (sync_products_to_shopify_mian w product)
                                   (\<lambda>response_shopify. lift (Inr ()))) ps) (\<lambda>u.
                        sbind (publish_offset c w (offset + 1)) (\<lambda>u'.
                          lift (Inr (JStr ''Product Complete!''))))) s1)))"

section \<open>Example worlds\<close>

text \<open>A reply that carries a JSON body with status 200.\<close>

definition ok_reply :: "json \<Rightarrow> py_error + response" where
  "ok_reply body = Inr \<lparr>status_code = 200, json_body = Inr body\<rparr>"

definition operation_reply :: "json \<Rightarrow> py_error + response" where
  "operation_reply operation =
     ok_reply (JDict [(''data'', JDict [(''productOperation'', operation)])])"

definition created_reply :: "py_error + response" where
  "created_reply =
     operation_reply (JDict [(''status'', JStr ''CREATED''), (''product'', JNull),
                             (''userErrors'', JList [])])"

definition complete_reply :: "py_error + response" where
  "complete_reply =
     operation_reply
       (JDict [(''status'', JStr ''COMPLETE''),
               (''product'', JDict [(''id'', JStr ''gid://shopify/Product/1''),
                                    (''title'', JStr ''Lamp'')]),
               (''userErrors'', JList [])])"

text \<open>
  A world whose first two POSTs find the operation \<^verbatim>\<open>CREATED\<close> and whose third finds it
  \<^verbatim>\<open>COMPLETE\<close>, and a world in which no POST ever finds it \<^verbatim>\<open>COMPLETE\<close>.
\<close>

definition slow_world :: world where
  "slow_world =
     \<lparr>names_order = id, values_order = id,
      get_reply = (\<lambda>offset. Inl RequestException),
      post_reply = (\<lambda>k. if k < 2 then created_reply else complete_reply),
      publish_raises = None\<rparr>"

definition stuck_world :: world where
  "stuck_world =
     \<lparr>names_order = id, values_order = id,
      get_reply = (\<lambda>offset. Inl RequestException),
      post_reply = (\<lambda>k. created_reply),
      publish_raises = None\<rparr>"

text \<open>
  A page of two records: the first has no \<^verbatim>\<open>name\<close>, the second is well formed. In
  \<open>page_world\<close> the GET returns this page at every offset, and every POST is answered
  with an empty JSON object.
\<close>

definition nameless_product :: json where
  "nameless_product = JDict [(''variants'', JList []), (''attributes'', JList [])]"

definition plain_product :: json where
  "plain_product =
     JDict [(''name'', JStr ''Lamp''), (''variants'', JList []), (''attributes'', JList []),
            (''main_image'', JNull), (''images'', JList [])]"

definition page_world :: "json list \<Rightarrow> world" where
  "page_world page =
     \<lparr>names_order = id, values_order = id,
      get_reply = (\<lambda>offset. ok_reply (JDict [(''results'', JList page)])),
      post_reply = (\<lambda>k. ok_reply (JDict [])),
      publish_raises = None\<rparr>"

text \<open>
  A wire for offset messages: the JSON text of \<^verbatim>\<open>{"offset": s}\<close> is written and read
  back literally, UTF-8 and base64 leave the text as it is.
\<close>

definition offset_text :: "string \<Rightarrow> string" where
  "offset_text s =
     [CHR ''{'', CHR 0x22] @ ''offset'' @ [CHR 0x22, CHR '':'', CHR '' '', CHR 0x22] @ s
       @ [CHR 0x22, CHR ''}'']"

definition plain_wire :: wire where
  "plain_wire =
     \<lparr>json_dumps = (\<lambda>j. case j of JDict [(k, JStr s)] \<Rightarrow> offset_text s | _ \<Rightarrow> ''null''),
      json_loads = (\<lambda>t.
        if 14 \<le> length t \<and> take 12 t = take 12 (offset_text []) \<and>
           drop (length t - 2) t = drop 12 (offset_text [])
        then Inr (JDict [(''offset'', JStr (take (length t - 14) (drop 12 t)))])
        else Inl ValueError),
      utf8_encode = (\<lambda>t. t),
      utf8_decode = (\<lambda>b. Inr b),
      b64encode = (\<lambda>b. b),
      b64decode = (\<lambda>t. Inr t)\<rparr>"

text \<open>A world whose GET is answered with status 500.\<close>

definition failing_world :: world where
  "failing_world =
     \<lparr>names_order = id, values_order = id,
      get_reply = (\<lambda>offset. Inr \<lparr>status_code = 500, json_body = Inl ValueError\<rparr>),
      post_reply = (\<lambda>k. Inl RequestException),
      publish_raises = None\<rparr>"

section \<open>Observing a trace\<close>

text \<open>
  An event is quiet when it is neither a \<^verbatim>\<open>productSet\<close> submission, nor a publication,
  nor the completion email; a step is quiet when it adds quiet events only. \<open>mappable w p\<close>
  is the payload main.py submits for record \<open>p\<close>: the mapped product, or nothing when the
  mapper raises.
\<close>

fun quiet_event :: "event \<Rightarrow> bool" where
  "quiet_event (Post (ProductSet m)) = False"
| "quiet_event (Publish b) = False"
| "quiet_event SendMail = False"
| "quiet_event (Post (ProductOperation operation_id)) = True"
| "quiet_event (Post (ProductCreateMedia alt url product_id)) = True"
| "quiet_event (Get offset) = True"
| "quiet_event Sleep = True"

definition quiet_step :: "state \<Rightarrow> state \<Rightarrow> bool" where
  "quiet_step s s' = (\<exists>t. trace s' = trace s @ t \<and> list_all quiet_event t)"

definition quiet_act :: "(state \<Rightarrow> (py_error + 'a) \<times> state) \<Rightarrow> bool" where
  "quiet_act m = (\<forall>s. quiet_step s (snd (m s)))"

definition mappable :: "world \<Rightarrow> json \<Rightarrow> json list" where
  "mappable w p =
     (case map_catalogiq_to_shopify (names_order w) (values_order w) p of
        Inl e \<Rightarrow> []
      | Inr m \<Rightarrow> [m])"

text \<open>
  \<open>polls_settle w\<close>: whenever the poller asks, some later reply does not report a status
  other than \<^verbatim>\<open>COMPLETE\<close> (it reports \<^verbatim>\<open>COMPLETE\<close>, or the call or the reading of
  the reply raises).
\<close>

definition polls_settle :: "world \<Rightarrow> bool" where
  "polls_settle w = (\<forall>k. \<exists>j\<ge>k. \<not> reports_pending (post_reply w j))"

section \<open>Sequencing and loops\<close>

lemma ebind_Inr [simp]: "ebind (Inr x) f = f x"
  by (simp add: ebind_def)

lemma ebind_Inl [simp]: "ebind (Inl e) f = Inl e"
  by (simp add: ebind_def)

lemma ebind_eq_Inr: "ebind m f = Inr y \<longleftrightarrow> (\<exists>x. m = Inr x \<and> f x = Inr y)"
  by (cases m) simp_all

lemma efold_invariant:
  assumes "P s"
    and "\<And>x s. x \<in> set xs \<Longrightarrow> P s \<Longrightarrow> \<exists>s'. f x s = Inr s' \<and> P s'"
  shows "\<exists>s'. efold f xs s = Inr s' \<and> P s'"
  using assms
proof (induction xs arbitrary: s)
  case Nil
  then show ?case by simp
next
  case (Cons x xs)
  from Cons.prems obtain s1 where s1: "f x s = Inr s1" "P s1"
    by (meson list.set_intros(1))
  have "\<exists>s'. efold f xs s1 = Inr s' \<and> P s'"
    using Cons.IH [OF s1(2)] Cons.prems(2) by (meson list.set_intros(2))
  with s1 show ?case by simp
qed

lemma field_okE:
  assumes "field_ok P d k"
  obtains v where "py_getitem d k = Inr v" "P v"
  using assms by (auto simp: field_ok_def split: sum.splits)

lemma items_okE:
  assumes "items_ok P j"
  obtains xs where "py_iter j = Inr xs" "\<forall>x \<in> set xs. P x"
  using assms by (auto simp: items_ok_def list_all_iff split: sum.splits)

lemma py_set_add_hashable:
  "py_hashable x \<Longrightarrow> \<exists>s'. py_set_add s x = Inr s'"
  by (simp add: py_set_add_def)

lemma add_attribute_name_ok:
  "wf_variant_attribute a \<Longrightarrow> \<exists>s'. add_attribute_name a s = Inr s'"
  unfolding wf_variant_attribute_def add_attribute_name_def
  by (auto elim!: field_okE simp: py_set_add_def)

lemma add_variant_names_ok:
  assumes "wf_variant v"
  shows "\<exists>s'. add_variant_names v s = Inr s'"
proof -
  from assms obtain attributes attrs where a: "py_getitem v ''attributes'' = Inr attributes"
    "py_iter attributes = Inr attrs" "\<forall>x \<in> set attrs. wf_variant_attribute x"
    unfolding wf_variant_def by (auto elim!: field_okE items_okE)
  have "\<exists>s'. efold add_attribute_name attrs s = Inr s' \<and> True"
    by (rule efold_invariant) (use a(3) add_attribute_name_ok in auto)
  with a show ?thesis by (simp add: add_variant_names_def)
qed

lemma collect_option_names_ok:
  assumes "wf_product p"
  shows "\<exists>names. collect_option_names p = Inr names"
proof -
  from assms obtain variants vs where v: "py_getitem p ''variants'' = Inr variants"
    "py_iter variants = Inr vs" "\<forall>x \<in> set vs. wf_variant x"
    unfolding wf_product_def by (auto elim!: field_okE items_okE)
  have "\<exists>s'. efold add_variant_names vs [] = Inr s' \<and> True"
    by (rule efold_invariant) (use v(3) add_variant_names_ok in auto)
  with v show ?thesis by (simp add: collect_option_names_def)
qed

lemma first_value_ok:
  "\<forall>x \<in> set attrs. wf_variant_attribute x \<Longrightarrow> \<exists>v. first_value n attrs = Inr v"
proof (induction attrs)
  case Nil
  then show ?case by simp
next
  case (Cons a attrs)
  then have "wf_variant_attribute a" by simp
  then obtain nm v where "py_getitem a ''name'' = Inr nm" "py_getitem a ''value'' = Inr v"
    unfolding wf_variant_attribute_def by (auto elim!: field_okE)
  with Cons show ?case by simp
qed

lemma add_option_value_ok:
  assumes "wf_variant v"
  shows "\<exists>s'. add_option_value v n s = Inr s'"
proof -
  from assms obtain attributes attrs where a: "py_getitem v ''attributes'' = Inr attributes"
    "py_iter attributes = Inr attrs" "\<forall>x \<in> set attrs. wf_variant_attribute x"
    unfolding wf_variant_def by (auto elim!: field_okE items_okE)
  from first_value_ok [OF a(3)] obtain w where "first_value n attrs = Inr w" by blast
  with a show ?thesis by (simp add: add_option_value_def)
qed

lemma map_variant_ok:
  assumes "wf_variant v"
  shows "\<exists>s'. map_variant names v s = Inr s'"
proof -
  have "\<exists>s'. efold (add_option_value v) names [] = Inr s' \<and> True"
    by (rule efold_invariant) (use add_option_value_ok [OF assms] in auto)
  moreover from assms obtain sku where "py_getitem v ''default_code'' = Inr sku"
    unfolding wf_variant_def by (auto elim!: field_okE)
  ultimately show ?thesis by (auto simp: map_variant_def)
qed

lemma map_variants_ok:
  assumes "wf_product p"
  shows "\<exists>ws. map_variants names p = Inr ws"
proof -
  from assms obtain variants vs where v: "py_getitem p ''variants'' = Inr variants"
    "py_iter variants = Inr vs" "\<forall>x \<in> set vs. wf_variant x"
    unfolding wf_product_def by (auto elim!: field_okE items_okE)
  have "\<exists>s'. efold (map_variant names) vs [] = Inr s' \<and> True"
    by (rule efold_invariant) (use v(3) map_variant_ok in auto)
  with v show ?thesis by (simp add: map_variants_def)
qed

lemma add_attribute_value_ok:
  assumes "wf_variant_attribute a" "list_all py_hashable vals"
  shows "\<exists>s'. add_attribute_value n a vals = Inr s' \<and> list_all py_hashable s'"
proof -
  from assms(1) obtain nm v where "py_getitem a ''name'' = Inr nm"
    "py_getitem a ''value'' = Inr v" "py_hashable v"
    unfolding wf_variant_attribute_def by (auto elim!: field_okE)
  with assms(2) show ?thesis by (simp add: add_attribute_value_def)
qed

lemma add_variant_values_ok:
  assumes "wf_variant v" "list_all py_hashable vals"
  shows "\<exists>s'. add_variant_values n v vals = Inr s' \<and> list_all py_hashable s'"
proof -
  from assms(1) obtain attributes attrs where a: "py_getitem v ''attributes'' = Inr attributes"
    "py_iter attributes = Inr attrs" "\<forall>x \<in> set attrs. wf_variant_attribute x"
    unfolding wf_variant_def by (auto elim!: field_okE items_okE)
  have "\<exists>s'. efold (add_attribute_value n) attrs vals = Inr s' \<and> list_all py_hashable s'"
    by (rule efold_invariant) (use a(3) assms(2) add_attribute_value_ok in auto)
  with a show ?thesis by (simp add: add_variant_values_def)
qed

lemma unique_values_ok:
  assumes "list_all py_hashable vals"
  shows "\<exists>u. unique_values vi vals = Inr u"
proof -
  have "\<exists>s'. efold (\<lambda>v s. py_set_add s v) vals [] = Inr s' \<and> True"
    by (rule efold_invariant) (use assms in \<open>auto simp: list_all_iff py_set_add_def\<close>)
  then show ?thesis by (auto simp: unique_values_def)
qed

lemma add_product_option_ok:
  assumes "wf_product p"
  shows "\<exists>s'. add_product_option vi p n s = Inr s'"
proof -
  from assms obtain variants vs where v: "py_getitem p ''variants'' = Inr variants"
    "py_iter variants = Inr vs" "\<forall>x \<in> set vs. wf_variant x"
    unfolding wf_product_def by (auto elim!: field_okE items_okE)
  have "\<exists>s'. efold (add_variant_values n) vs [] = Inr s' \<and> list_all py_hashable s'"
    by (rule efold_invariant) (use v(3) add_variant_values_ok in auto)
  then obtain vals where vals: "efold (add_variant_values n) vs [] = Inr vals"
    "list_all py_hashable vals" by blast
  from unique_values_ok [OF vals(2)] obtain u where "unique_values vi vals = Inr u" by blast
  with v vals show ?thesis by (simp add: add_product_option_def)
qed

lemma build_product_options_ok:
  assumes "wf_product p"
  shows "\<exists>opts. build_product_options vi names p = Inr opts"
proof -
  have "\<exists>s'. efold (add_product_option vi p) names [] = Inr s' \<and> True"
    by (rule efold_invariant) (use add_product_option_ok [OF assms] in auto)
  then show ?thesis by (simp add: build_product_options_def)
qed

lemma metafields_of_ok:
  assumes "\<forall>x \<in> set attrs. wf_product_attribute x"
    and "\<exists>g. py_getitem p ''attributes'' = Inr g"
  shows "\<exists>ms. metafields_of p attrs = Inr ms"
  using assms
proof (induction attrs)
  case Nil
  then show ?case by simp
next
  case (Cons a attrs)
  from Cons.prems obtain g where g: "py_getitem p ''attributes'' = Inr g" by blast
  from Cons obtain ms where ms: "metafields_of p attrs = Inr ms" by auto
  from Cons.prems have "wf_product_attribute a" by simp
  then obtain c d n v where "py_getitem a ''category'' = Inr c"
    "py_getitem a ''description'' = Inr d" "py_getitem a ''name'' = Inr n"
    "py_getitem a ''value'' = Inr v"
    unfolding wf_product_attribute_def by (auto elim!: field_okE)
  with g ms show ?case by simp
qed

lemma metafields_ok:
  assumes "wf_product p"
  shows "\<exists>ms. metafields p = Inr ms"
proof -
  from assms obtain attributes attrs where a: "py_getitem p ''attributes'' = Inr attributes"
    "py_iter attributes = Inr attrs" "\<forall>x \<in> set attrs. wf_product_attribute x"
    unfolding wf_product_def by (auto elim!: field_okE items_okE)
  from metafields_of_ok [OF a(3)] a(1) obtain ms where "metafields_of p attrs = Inr ms"
    by blast
  with a show ?thesis by (simp add: metafields_def)
qed

lemma py_get_ok:
  "py_getitem p k = Inr v \<Longrightarrow> py_get p k d = Inr v"
  by (cases p) (auto split: option.splits)

lemma description_html_ok:
  assumes "wf_product p"
  shows "\<exists>d. description_html p = Inr d"
proof -
  from assms obtain t where "py_getitem p ''name'' = Inr t"
    unfolding wf_product_def by (auto elim!: field_okE)
  then obtain kvs where "p = JDict kvs" by (cases p) auto
  then show ?thesis by (simp add: description_html_def)
qed

subsection \<open>What the loops of the mapper compute\<close>

lemma efold_eq_foldl:
  assumes "efold f xs s = Inr s'"
    and "\<And>x t t'. x \<in> set xs \<Longrightarrow> f x t = Inr t' \<Longrightarrow> t' = g t x"
  shows "s' = foldl g s xs"
  using assms
proof (induction xs arbitrary: s)
  case Nil
  then show ?case by simp
next
  case (Cons x xs)
  from Cons.prems(1) obtain t where t: "f x s = Inr t" "efold f xs t = Inr s'"
    by (auto simp: ebind_eq_Inr)
  from Cons.prems(2) [OF _ t(1)] have "t = g s x" by simp
  moreover have "s' = foldl g t xs"
    using Cons.IH [OF t(2)] Cons.prems(2) by simp
  ultimately show ?case by simp
qed

lemma foldl_append_concat:
  "foldl (\<lambda>s x. s @ g x) s xs = s @ concat (map g xs)"
  by (induction xs arbitrary: s) simp_all

lemma foldl_concat_lists:
  "foldl f s (concat xss) = foldl (foldl f) s xss"
  by (induction xss arbitrary: s) simp_all

lemma efold_eq_append:
  assumes "efold f xs s = Inr s'"
    and "\<And>x t t'. x \<in> set xs \<Longrightarrow> f x t = Inr t' \<Longrightarrow> t' = t @ g x"
  shows "s' = s @ concat (map g xs)"
  using efold_eq_foldl [OF assms(1), of "\<lambda>s x. s @ g x"] assms(2)
  by (simp add: foldl_append_concat)

lemma field_eq: "py_getitem d k = Inr v \<Longrightarrow> field k d = v"
  by (simp add: field_def)

lemma items_eq: "py_iter j = Inr xs \<Longrightarrow> items j = xs"
  by (simp add: items_def)

lemma py_set_add_eq: "py_set_add s x = Inr s' \<Longrightarrow> s' = insert_key s x"
  by (auto simp: py_set_add_def insert_key_def split: if_splits)

lemma add_attribute_name_eq:
  "add_attribute_name a s = Inr s' \<Longrightarrow> s' = insert_key s (field ''name'' a)"
  by (auto simp: add_attribute_name_def ebind_eq_Inr field_eq dest: py_set_add_eq)

lemma add_variant_names_eq:
  assumes "add_variant_names v s = Inr s'"
  shows "s' = foldl insert_key s (map (field ''name'') (attributes_of v))"
proof -
  from assms obtain attributes attrs where a: "py_getitem v ''attributes'' = Inr attributes"
    "py_iter attributes = Inr attrs" "efold add_attribute_name attrs s = Inr s'"
    by (auto simp: add_variant_names_def ebind_eq_Inr)
  have "s' = foldl (\<lambda>t x. insert_key t (field ''name'' x)) s attrs"
    by (rule efold_eq_foldl [OF a(3)]) (rule add_attribute_name_eq)
  moreover have "attributes_of v = attrs"
    using a by (simp add: attributes_of_def field_eq items_eq)
  ultimately show ?thesis by (simp add: foldl_map)
qed

lemma collect_option_names_eq:
  assumes "collect_option_names p = Inr names"
  shows "names = foldl insert_key [] (attribute_names p)"
proof -
  from assms obtain variants vs where v: "py_getitem p ''variants'' = Inr variants"
    "py_iter variants = Inr vs" "efold add_variant_names vs [] = Inr names"
    by (auto simp: collect_option_names_def ebind_eq_Inr)
  have "names = foldl (\<lambda>t x. foldl insert_key t (map (field ''name'') (attributes_of x))) [] vs"
    by (rule efold_eq_foldl [OF v(3)]) (rule add_variant_names_eq)
  moreover have "variants_of p = vs"
    using v by (simp add: variants_of_def field_eq items_eq)
  ultimately show ?thesis
    by (simp add: attribute_names_def foldl_concat_lists foldl_map)
qed

lemma first_value_eq:
  "first_value n attrs = Inr v \<Longrightarrow>
   v = (case find (named n) attrs of None \<Rightarrow> JNull | Some a \<Rightarrow> field ''value'' a)"
  by (induction attrs) (auto simp: ebind_eq_Inr named_def field_eq split: if_splits)

lemma add_option_value_eq:
  assumes "add_option_value v n s = Inr s'"
  shows "s' = s @ option_entry v n"
proof -
  from assms obtain attributes attrs w where a: "py_getitem v ''attributes'' = Inr attributes"
    "py_iter attributes = Inr attrs" "first_value n attrs = Inr w"
    "s' = (if py_truthy w then s @ [JDict [(''optionName'', n), (''name'', w)]] else s)"
    by (auto simp: add_option_value_def ebind_eq_Inr split: if_splits)
  have "attributes_of v = attrs"
    using a by (simp add: attributes_of_def field_eq items_eq)
  with first_value_eq [OF a(3)] a(4) show ?thesis
    by (auto simp: option_entry_def first_named_def split: option.splits)
qed

lemma map_variant_eq:
  assumes "map_variant names v s = Inr s'"
  shows "s' = s @ [mapped_variant names v]"
proof -
  from assms obtain ovs sku where a: "efold (add_option_value v) names [] = Inr ovs"
    "py_getitem v ''default_code'' = Inr sku"
    "s' = s @ [JDict [(''sku'', sku), (''optionValues'', JList ovs)]]"
    by (auto simp: map_variant_def ebind_eq_Inr)
  have "ovs = [] @ concat (map (option_entry v) names)"
    by (rule efold_eq_append [OF a(1)]) (rule add_option_value_eq)
  with a show ?thesis by (simp add: mapped_variant_def field_eq)
qed

lemma efold_map_variant_eq:
  assumes "efold (map_variant names) vs [] = Inr ws"
  shows "ws = map (mapped_variant names) vs"
proof -
  have "ws = [] @ concat (map (\<lambda>v. [mapped_variant names v]) vs)"
    by (rule efold_eq_append [OF assms]) (rule map_variant_eq)
  then show ?thesis by simp
qed

lemma map_variants_eq:
  assumes "map_variants names p = Inr ws"
  shows "ws = map (mapped_variant names) (variants_of p)"
proof -
  from assms obtain variants vs where v: "py_getitem p ''variants'' = Inr variants"
    "py_iter variants = Inr vs" "efold (map_variant names) vs [] = Inr ws"
    by (auto simp: map_variants_def ebind_eq_Inr)
  have "variants_of p = vs"
    using v by (simp add: variants_of_def field_eq items_eq)
  with efold_map_variant_eq [OF v(3)] show ?thesis by simp
qed

lemma add_attribute_value_eq:
  "add_attribute_value n a s = Inr s' \<Longrightarrow>
   s' = s @ map (field ''value'') (filter (named n) [a])"
  by (auto simp: add_attribute_value_def ebind_eq_Inr named_def field_eq split: if_splits)

lemma add_variant_values_eq:
  assumes "add_variant_values n v s = Inr s'"
  shows "s' = s @ map (field ''value'') (filter (named n) (attributes_of v))"
proof -
  from assms obtain attributes attrs where a: "py_getitem v ''attributes'' = Inr attributes"
    "py_iter attributes = Inr attrs" "efold (add_attribute_value n) attrs s = Inr s'"
    by (auto simp: add_variant_values_def ebind_eq_Inr)
  have "s' = s @ concat (map (\<lambda>a. map (field ''value'') (filter (named n) [a])) attrs)"
    by (rule efold_eq_append [OF a(3)]) (rule add_attribute_value_eq)
  moreover have "attributes_of v = attrs"
    using a by (simp add: attributes_of_def field_eq items_eq)
  moreover have "concat (map (\<lambda>a. map (field ''value'') (filter (named n) [a])) attrs)
      = map (field ''value'') (filter (named n) attrs)"
    by (induction attrs) simp_all
  ultimately show ?thesis by simp
qed

lemma unique_values_eq:
  assumes "unique_values values_iter vals = Inr u"
  shows "u = map (\<lambda>v. JDict [(''name'', v)]) (values_iter (foldl insert_key [] vals))"
proof -
  from assms obtain s where s: "efold (\<lambda>v s. py_set_add s v) vals [] = Inr s"
    "u = map (\<lambda>v. JDict [(''name'', v)]) (values_iter s)"
    by (auto simp: unique_values_def ebind_eq_Inr)
  have "s = foldl insert_key [] vals"
    by (rule efold_eq_foldl [OF s(1)]) (rule py_set_add_eq)
  with s(2) show ?thesis by simp
qed

lemma add_product_option_eq:
  assumes "add_product_option values_iter p n s = Inr s'"
  shows "s' = s @ [mapped_option values_iter (variants_of p) n]"
proof -
  from assms obtain variants vs vals u where v: "py_getitem p ''variants'' = Inr variants"
    "py_iter variants = Inr vs" "efold (add_variant_values n) vs [] = Inr vals"
    "unique_values values_iter vals = Inr u"
    "s' = s @ [JDict [(''name'', n), (''values'', JList u)]]"
    by (auto simp: add_product_option_def ebind_eq_Inr)
  have "vals = [] @ concat (map (\<lambda>v. map (field ''value'') (filter (named n) (attributes_of v))) vs)"
    by (rule efold_eq_append [OF v(3)]) (rule add_variant_values_eq)
  moreover have "variants_of p = vs"
    using v by (simp add: variants_of_def field_eq items_eq)
  ultimately show ?thesis
    using unique_values_eq [OF v(4)] v(5)
    by (simp add: mapped_option_def assigned_values_def)
qed

lemma build_product_options_eq:
  assumes "build_product_options values_iter names p = Inr opts"
  shows "opts = map (mapped_option values_iter (variants_of p)) names"
proof -
  have "opts = [] @ concat (map (\<lambda>n. [mapped_option values_iter (variants_of p) n]) names)"
    by (rule efold_eq_append [OF assms [unfolded build_product_options_def]])
       (rule add_product_option_eq)
  then show ?thesis by simp
qed

subsection \<open>Sets kept as lists\<close>

lemma py_eq_refl [simp]: "py_eq a a"
  by (simp add: py_eq_def)

lemma set_insert_key: "set (insert_key s x) \<subseteq> insert x (set s)"
  by (auto simp: insert_key_def)

lemma keys_insert_key: "py_key ` set (insert_key s x) = insert (py_key x) (py_key ` set s)"
  by (auto simp: insert_key_def py_eq_def intro: rev_image_eqI)

lemma distinct_insert_key:
  "distinct (map py_key s) \<Longrightarrow> distinct (map py_key (insert_key s x))"
  by (auto simp: insert_key_def py_eq_def)

lemma set_foldl_insert_key: "set (foldl insert_key s xs) \<subseteq> set s \<union> set xs"
proof (induction xs arbitrary: s)
  case Nil
  then show ?case by simp
next
  case (Cons x xs)
  from Cons.IH [of "insert_key s x"] set_insert_key [of s x] show ?case by auto
qed

lemma keys_foldl_insert_key:
  "py_key ` set (foldl insert_key s xs) = py_key ` (set s \<union> set xs)"
proof (induction xs arbitrary: s)
  case Nil
  then show ?case by simp
next
  case (Cons x xs)
  from Cons.IH [of "insert_key s x"] keys_insert_key [of s x] show ?case
    by (simp add: image_Un)
qed

lemma distinct_foldl_insert_key:
  "distinct (map py_key s) \<Longrightarrow> distinct (map py_key (foldl insert_key s xs))"
  by (induction xs arbitrary: s) (simp_all add: distinct_insert_key)

lemma set_iteration_set: "set_iteration iter \<Longrightarrow> set (iter s) = set s"
  unfolding set_iteration_def by (metis set_mset_mset)

lemma set_iteration_distinct:
  assumes "set_iteration iter" "distinct (map f s)"
  shows "distinct (map f (iter s))"
proof -
  from assms(1) have "mset (map f (iter s)) = mset (map f s)"
    unfolding set_iteration_def by (metis mset_map)
  with assms(2) show ?thesis by (metis mset_eq_imp_distinct_iff)
qed

lemma map_catalogiq_to_shopify_eq:
  assumes "map_catalogiq_to_shopify names_iter values_iter p = Inr out"
  shows "\<exists>title d mfs. out =
     JDict [(''title'', title),
            (''vendor'', JStr ''Vendor Name''),
            (''descriptionHtml'', d),
            (''productOptions'', JList (map (mapped_option values_iter (variants_of p))
                (names_iter (option_names_of p)))),
            (''variants'', JList (map (mapped_variant (names_iter (option_names_of p)))
                (variants_of p))),
            (''metafields'', JList mfs)]"
proof -
  from assms obtain names ws opts title d mfs where
    1: "collect_option_names p = Inr names"
    and 2: "map_variants (names_iter names) p = Inr ws"
    and 3: "build_product_options values_iter (names_iter names) p = Inr opts"
    and out: "out = JDict [(''title'', title), (''vendor'', JStr ''Vendor Name''),
       (''descriptionHtml'', d), (''productOptions'', JList opts),
       (''variants'', JList ws), (''metafields'', JList mfs)]"
    unfolding map_catalogiq_to_shopify_def ebind_eq_Inr by blast
  from collect_option_names_eq [OF 1] have "names = option_names_of p"
    by (simp add: option_names_of_def)
  with map_variants_eq [OF 2] build_product_options_eq [OF 3] out show ?thesis
    by simp
qed

lemma distinct_option_names: "distinct (map py_key (option_names_of p))"
  unfolding option_names_of_def by (rule distinct_foldl_insert_key) simp

lemma set_option_names: "set (option_names_of p) \<subseteq> set (attribute_names p)"
  unfolding option_names_of_def using set_foldl_insert_key [of "[]"] by simp

lemma keys_option_names:
  "py_key ` set (option_names_of p) = py_key ` set (attribute_names p)"
  unfolding option_names_of_def using keys_foldl_insert_key [of "[]"] by simp

lemma mapped_option_name [simp]: "field ''name'' (mapped_option values_iter vs n) = n"
  by (simp add: mapped_option_def field_def)

lemma wrapped_name [simp]: "field ''name'' (JDict [(''name'', v)]) = v"
  by (simp add: field_def)

lemma mapped_option_values:
  assumes "set_iteration values_iter"
  shows "\<exists>vals. py_getitem (mapped_option values_iter vs n) ''values'' = Inr (JList vals) \<and>
     distinct (map (\<lambda>e. py_key (field ''name'' e)) vals) \<and>
     set (map (field ''name'') vals) \<subseteq> set (assigned_values n vs)"
proof -
  let ?s = "foldl insert_key [] (assigned_values n vs)"
  let ?vals = "map (\<lambda>v. JDict [(''name'', v)]) (values_iter ?s)"
  have names: "map (field ''name'') ?vals = values_iter ?s"
    by (simp add: comp_def)
  have "distinct (map py_key ?s)"
    by (rule distinct_foldl_insert_key) simp
  then have "distinct (map py_key (values_iter ?s))"
    by (rule set_iteration_distinct [OF assms])
  then have d: "distinct (map (\<lambda>e. py_key (field ''name'' e)) ?vals)"
    by (simp add: comp_def)
  have "set (values_iter ?s) \<subseteq> set (assigned_values n vs)"
    using set_foldl_insert_key [of "[]" "assigned_values n vs"]
    by (simp add: set_iteration_set [OF assms])
  with names have s: "set (map (field ''name'') ?vals) \<subseteq> set (assigned_values n vs)"
    by simp
  have "py_getitem (mapped_option values_iter vs n) ''values'' = Inr (JList ?vals)"
    by (simp add: mapped_option_def)
  with d s show ?thesis by blast
qed

lemma named_cong: "py_eq n m \<Longrightarrow> named n = named m"
  by (auto simp: named_def py_eq_def fun_eq_iff)

lemma first_named_cong: "py_eq n m \<Longrightarrow> first_named n v = first_named m v"
  by (simp add: first_named_def named_cong)

lemma option_entry_nonempty:
  "option_entry v n \<noteq> [] \<longleftrightarrow>
   (\<exists>a. first_named n v = Some a \<and> py_truthy (field ''value'' a))"
  by (auto simp: option_entry_def split: option.splits)

lemma entry_fields:
  "field ''optionName'' (JDict [(''optionName'', n), (''name'', w)]) = n"
  "field ''name'' (JDict [(''optionName'', n), (''name'', w)]) = w"
  by (simp_all add: field_def)

lemma option_entry_member:
  assumes "e \<in> set (option_entry v n)"
  shows "field ''optionName'' e = n \<and>
   (\<exists>a. first_named n v = Some a \<and> py_truthy (field ''value'' a) \<and>
        field ''name'' e = field ''value'' a)"
proof (cases "first_named n v")
  case None
  with assms show ?thesis by (simp add: option_entry_def)
next
  case (Some a)
  with assms have "py_truthy (field ''value'' a)"
    and "e = JDict [(''optionName'', n), (''name'', field ''value'' a)]"
    by (auto simp: option_entry_def split: if_splits)
  with Some show ?thesis by (simp add: entry_fields)
qed

lemma first_named_in_attribute_names:
  assumes "first_named A v = Some a" and "v \<in> set (variants_of p)"
  shows "\<exists>n \<in> set (option_names_of p). py_eq n A"
proof -
  from assms(1) have a: "a \<in> set (attributes_of v)" "named A a"
    unfolding first_named_def by (auto simp: find_Some_iff)
  with assms(2) have "field ''name'' a \<in> set (attribute_names p)"
    by (auto simp: attribute_names_def)
  then have "py_key (field ''name'' a) \<in> py_key ` set (option_names_of p)"
    by (simp add: keys_option_names)
  then obtain n where "n \<in> set (option_names_of p)" "py_key n = py_key (field ''name'' a)"
    by auto
  with a(2) show ?thesis by (auto simp: named_def py_eq_def)
qed

lemma option_values_iff:
  assumes "set N = set (option_names_of p)" and "v \<in> set (variants_of p)"
  shows "(\<exists>e \<in> set (concat (map (option_entry v) N)). py_eq (field ''optionName'' e) A) \<longleftrightarrow>
     (\<exists>a. first_named A v = Some a \<and> py_truthy (field ''value'' a))"
proof
  assume "\<exists>e \<in> set (concat (map (option_entry v) N)). py_eq (field ''optionName'' e) A"
  then obtain e n where e: "n \<in> set N" "e \<in> set (option_entry v n)"
    "py_eq (field ''optionName'' e) A" by auto
  from option_entry_member [OF e(2)] obtain a where
    a: "field ''optionName'' e = n" "first_named n v = Some a" "py_truthy (field ''value'' a)"
    by blast
  from e(3) a(1) have "py_eq n A" by simp
  from first_named_cong [OF this] a show "\<exists>a. first_named A v = Some a \<and> py_truthy (field ''value'' a)"
    by auto
next
  assume "\<exists>a. first_named A v = Some a \<and> py_truthy (field ''value'' a)"
  then obtain a where a: "first_named A v = Some a" "py_truthy (field ''value'' a)" by blast
  from first_named_in_attribute_names [OF a(1) assms(2)] assms(1)
  obtain n where n: "n \<in> set N" "py_eq n A" by auto
  from first_named_cong [OF n(2)] a have "option_entry v n \<noteq> []"
    by (simp add: option_entry_nonempty)
  then obtain e where e: "e \<in> set (option_entry v n)" by (cases "option_entry v n") auto
  from option_entry_member [OF e] n(2) have "py_eq (field ''optionName'' e) A" by simp
  with n(1) e show "\<exists>e \<in> set (concat (map (option_entry v) N)). py_eq (field ''optionName'' e) A"
    by auto
qed

subsection \<open>The mapper of mian.py\<close>

lemma slice_items:
  assumes "py_slice_to n j = Inr first" and "py_iter first = Inr vs"
  shows "vs = take n (items j)"
  using assms by (cases j) (auto simp: items_def take_map)

lemma map_variants_mian_eq:
  assumes "map_variants_mian names p = Inr ws"
  shows "ws = map (mapped_variant names) (take 99 (variants_of p))"
proof -
  from assms obtain variants first vs where v: "py_getitem p ''variants'' = Inr variants"
    "py_slice_to 99 variants = Inr first" "py_iter first = Inr vs"
    "efold (map_variant names) vs [] = Inr ws"
    by (auto simp: map_variants_mian_def ebind_eq_Inr)
  from slice_items [OF v(2,3)] v(1) have "vs = take 99 (variants_of p)"
    by (simp add: variants_of_def field_eq)
  with efold_map_variant_eq [OF v(4)] show ?thesis by simp
qed

lemma map_catalogiq_to_shopify_mian_eq:
  assumes "map_catalogiq_to_shopify_mian names_iter values_iter p = Inr out"
  shows "\<exists>title d mfs. out =
     JDict [(''title'', title),
            (''vendor'', JStr ''Vendor Name''),
            (''descriptionHtml'', d),
            (''productOptions'', JList (map (mapped_option values_iter (variants_of p))
                (names_iter (option_names_of p)))),
            (''variants'', JList (map (mapped_variant (names_iter (option_names_of p)))
                (take 99 (variants_of p)))),
            (''metafields'', JList mfs)]"
proof -
  from assms obtain names ws opts title d mfs where
    1: "collect_option_names p = Inr names"
    and 2: "map_variants_mian (names_iter names) p = Inr ws"
    and 3: "build_product_options values_iter (names_iter names) p = Inr opts"
    and out: "out = JDict [(''title'', title), (''vendor'', JStr ''Vendor Name''),
       (''descriptionHtml'', d), (''productOptions'', JList opts),
       (''variants'', JList ws), (''metafields'', JList mfs)]"
    unfolding map_catalogiq_to_shopify_mian_def ebind_eq_Inr by blast
  from collect_option_names_eq [OF 1] have "names = option_names_of p"
    by (simp add: option_names_of_def)
  with map_variants_mian_eq [OF 2] build_product_options_eq [OF 3] out show ?thesis
    by simp
qed

lemma efold_append:
  "efold f (xs @ ys) s = ebind (efold f xs s) (efold f ys)"
  by (induction xs arbitrary: s) (simp_all add: ebind_def split: sum.splits)

lemma efold_take_ok:
  assumes "efold f xs s = Inr r"
  shows "\<exists>r'. efold f (take n xs) s = Inr r'"
proof -
  have "efold f (take n xs @ drop n xs) s = Inr r" using assms by simp
  then show ?thesis unfolding efold_append by (auto simp: ebind_eq_Inr)
qed

lemma description_html_eq:
  assumes "description_html p = Inr h"
  shows "\<exists>d d'. py_get p ''description_sale'' JNull = Inr d \<and>
     py_get p ''description_sale'' (JStr '''') = Inr d' \<and>
     h = (if py_truthy d then d' else JStr '''')"
proof -
  from assms obtain d where d: "py_get p ''description_sale'' JNull = Inr d"
    by (auto simp: description_html_def ebind_eq_Inr)
  then obtain kvs where "p = JDict kvs" by (cases p) auto
  then obtain d' where d': "py_get p ''description_sale'' (JStr '''') = Inr d'" by simp
  with assms d show ?thesis by (auto simp: description_html_def split: if_splits)
qed

lemma map_catalogiq_to_shopify_full:
  assumes "map_catalogiq_to_shopify names_iter values_iter p = Inr out"
  shows "\<exists>title h mfs. py_getitem p ''name'' = Inr title \<and> description_html p = Inr h \<and>
     metafields p = Inr mfs \<and>
     out = JDict [(''title'', title),
            (''vendor'', JStr ''Vendor Name''),
            (''descriptionHtml'', h),
            (''productOptions'', JList (map (mapped_option values_iter (variants_of p))
                (names_iter (option_names_of p)))),
            (''variants'', JList (map (mapped_variant (names_iter (option_names_of p)))
                (variants_of p))),
            (''metafields'', JList mfs)]"
proof -
  from assms obtain names ws opts title h mfs where
    1: "collect_option_names p = Inr names"
    and 2: "map_variants (names_iter names) p = Inr ws"
    and 3: "build_product_options values_iter (names_iter names) p = Inr opts"
    and 4: "py_getitem p ''name'' = Inr title" "description_html p = Inr h"
       "metafields p = Inr mfs"
    and out: "out = JDict [(''title'', title), (''vendor'', JStr ''Vendor Name''),
       (''descriptionHtml'', h), (''productOptions'', JList opts),
       (''variants'', JList ws), (''metafields'', JList mfs)]"
    unfolding map_catalogiq_to_shopify_def ebind_eq_Inr by blast
  from collect_option_names_eq [OF 1] have "names = option_names_of p"
    by (simp add: option_names_of_def)
  with map_variants_eq [OF 2] build_product_options_eq [OF 3] out 4 show ?thesis
    by simp
qed

lemma map_catalogiq_to_shopify_mian_full:
  assumes "map_catalogiq_to_shopify_mian names_iter values_iter p = Inr out"
  shows "\<exists>title h mfs. py_getitem p ''name'' = Inr title \<and>
     py_get p ''description_sale'' (JStr '''') = Inr h \<and>
     metafields p = Inr mfs \<and>
     out = JDict [(''title'', title),
            (''vendor'', JStr ''Vendor Name''),
            (''descriptionHtml'', h),
            (''productOptions'', JList (map (mapped_option values_iter (variants_of p))
                (names_iter (option_names_of p)))),
            (''variants'', JList (map (mapped_variant (names_iter (option_names_of p)))
                (take 99 (variants_of p)))),
            (''metafields'', JList mfs)]"
proof -
  from assms obtain names ws opts title h mfs where
    1: "collect_option_names p = Inr names"
    and 2: "map_variants_mian (names_iter names) p = Inr ws"
    and 3: "build_product_options values_iter (names_iter names) p = Inr opts"
    and 4: "py_getitem p ''name'' = Inr title" "description_html_mian p = Inr h"
       "metafields p = Inr mfs"
    and out: "out = JDict [(''title'', title), (''vendor'', JStr ''Vendor Name''),
       (''descriptionHtml'', h), (''productOptions'', JList opts),
       (''variants'', JList ws), (''metafields'', JList mfs)]"
    unfolding map_catalogiq_to_shopify_mian_def ebind_eq_Inr by blast
  from collect_option_names_eq [OF 1] have "names = option_names_of p"
    by (simp add: option_names_of_def)
  with map_variants_mian_eq [OF 2] build_product_options_eq [OF 3] out 4 show ?thesis
    by (simp add: description_html_mian_def)
qed

lemma mian_returns_when_main_does:
  assumes "py_getitem p ''variants'' = Inr (JList vs)"
    and "map_catalogiq_to_shopify names_iter values_iter p = Inr a"
  shows "\<exists>b. map_catalogiq_to_shopify_mian names_iter values_iter p = Inr b"
proof -
  from assms(2) obtain names ws opts title h mfs where
    1: "collect_option_names p = Inr names"
    and 2: "map_variants (names_iter names) p = Inr ws"
    and 3: "build_product_options values_iter (names_iter names) p = Inr opts"
    and 4: "py_getitem p ''name'' = Inr title" "description_html p = Inr h"
       "metafields p = Inr mfs"
    unfolding map_catalogiq_to_shopify_def ebind_eq_Inr by blast
  from 2 assms(1) have "efold (map_variant (names_iter names)) vs [] = Inr ws"
    by (simp add: map_variants_def)
  from efold_take_ok [OF this, of 99] assms(1)
  obtain ws' where m2: "map_variants_mian (names_iter names) p = Inr ws'"
    by (auto simp: map_variants_mian_def)
  from description_html_eq [OF 4(2)] obtain d' where
    "description_html_mian p = Inr d'" by (auto simp: description_html_mian_def)
  with 1 m2 3 4 show ?thesis
    by (simp add: map_catalogiq_to_shopify_mian_def)
qed

lemma set_iteration_id: "set_iteration id"
  by (simp add: set_iteration_def)

lemma set_iteration_rev: "set_iteration rev"
  by (simp add: set_iteration_def)

subsection \<open>The example products, mapped\<close>

lemma two_sizes_mapped:
  "map_catalogiq_to_shopify rev id two_sizes =
    Inr (JDict
      [(''title'', JStr ''Lamp''), (''vendor'', JStr ''Vendor Name''),
       (''descriptionHtml'', JStr ''''),
       (''productOptions'', JList
          [JDict [(''name'', JStr ''Color''),
                  (''values'', JList [JDict [(''name'', JStr ''Red'')]])],
           JDict [(''name'', JStr ''Size''),
                  (''values'', JList [JDict [(''name'', JStr ''S'')],
                                       JDict [(''name'', JStr ''M'')]])]]),
       (''variants'', JList
          [JDict [(''sku'', JStr ''L-S''),
                  (''optionValues'', JList
                     [JDict [(''optionName'', JStr ''Size''), (''name'', JStr ''S'')]])],
           JDict [(''sku'', JStr ''L-M''),
                  (''optionValues'', JList
                     [JDict [(''optionName'', JStr ''Color''), (''name'', JStr ''Red'')],
                      JDict [(''optionName'', JStr ''Size''), (''name'', JStr ''M'')]])]]),
       (''metafields'', JList [])])"
  by code_simp

lemma hundred_variants_mapped:
  "map_catalogiq_to_shopify id id hundred_variants =
    Inr (JDict
      [(''title'', JStr ''Lamp''), (''vendor'', JStr ''Vendor Name''),
       (''descriptionHtml'', JStr ''''),
       (''productOptions'', JList
          [JDict [(''name'', JStr ''Size''),
                  (''values'', JList [JDict [(''name'', JStr ''S'')],
                                       JDict [(''name'', JStr ''XL'')]])]]),
       (''variants'', JList
          (replicate 99
             (JDict [(''sku'', JStr ''L-S''),
                     (''optionValues'', JList
                        [JDict [(''optionName'', JStr ''Size''), (''name'', JStr ''S'')]])])
           @ [JDict [(''sku'', JStr ''L-XL''),
                     (''optionValues'', JList
                        [JDict [(''optionName'', JStr ''Size''), (''name'', JStr ''XL'')]])]])),
       (''metafields'', JList [])])"
  by code_simp

lemma hundred_variants_mapped_mian:
  "map_catalogiq_to_shopify_mian id id hundred_variants =
    Inr (JDict
      [(''title'', JStr ''Lamp''), (''vendor'', JStr ''Vendor Name''),
       (''descriptionHtml'', JNull),
       (''productOptions'', JList
          [JDict [(''name'', JStr ''Size''),
                  (''values'', JList [JDict [(''name'', JStr ''S'')],
                                       JDict [(''name'', JStr ''XL'')]])]]),
       (''variants'', JList
          (replicate 99
             (JDict [(''sku'', JStr ''L-S''),
                     (''optionValues'', JList
                        [JDict [(''optionName'', JStr ''Size''), (''name'', JStr ''S'')]])]))),
       (''metafields'', JList [])])"
  by code_simp

lemma hundred_variants_first_99:
  "JStr ''XL'' \<notin> set (assigned_values (JStr ''Size'') (take 99 (variants_of hundred_variants)))"
  by code_simp

section \<open>The poller\<close>

lemma sbind_lift_Inr [simp]: "sbind (lift (Inr x)) f s = f x s"
  by (simp add: sbind_def lift_def)

lemma sbind_lift_Inl [simp]: "sbind (lift (Inl e)) f s = (Inl e, s)"
  by (simp add: sbind_def lift_def)

lemma sbind_requests_post:
  "sbind (requests_post w r) f s =
     (case post_reply w (posts s) of
        Inl e \<Rightarrow> (Inl e, emit (Post r) (s\<lparr>posts := Suc (posts s)\<rparr>))
      | Inr response \<Rightarrow> f response (emit (Post r) (s\<lparr>posts := Suc (posts s)\<rparr>)))"
  by (simp add: sbind_def requests_post_def split: sum.splits)

lemma py_eq_JStr [simp]: "py_eq x (JStr s) \<longleftrightarrow> x = JStr s"
  by (cases x) (auto simp: py_eq_def)

lemma poll_once_pending:
  assumes "reports_pending (post_reply w (posts s))"
  shows "poll_once w op s =
    (Inr Pending,
     \<lparr>posts = Suc (posts s), trace = trace s @ [Post (ProductOperation op), Sleep]\<rparr>)"
proof -
  from assms obtain response status_data d operation status where
    "post_reply w (posts s) = Inr response" "json_body response = Inr status_data"
    "py_getitem status_data ''data'' = Inr d" "py_getitem d ''productOperation'' = Inr operation"
    "py_getitem operation ''status'' = Inr status" "status \<noteq> JStr ''COMPLETE''"
    by (auto simp: reports_pending_def reported_status_def reported_operation_def
        ebind_eq_Inr split: sum.splits)
  then show ?thesis
    by (simp add: poll_once_def sbind_requests_post read_status_def emit_def)
qed

lemma poll_once_complete:
  assumes "reports_complete (post_reply w (posts s)) product user_errors"
  shows "poll_once w op s =
    (Inr (Complete (JStr ''COMPLETE'') (field ''id'' product) user_errors),
     \<lparr>posts = Suc (posts s), trace = trace s @ [Post (ProductOperation op)]\<rparr>)"
proof -
  from assms obtain response status_data d operation where r:
    "post_reply w (posts s) = Inr response" "json_body response = Inr status_data"
    "py_getitem status_data ''data'' = Inr d" "py_getitem d ''productOperation'' = Inr operation"
    "py_getitem operation ''status'' = Inr (JStr ''COMPLETE'')"
    "py_getitem operation ''product'' = Inr product" "product = JNull \<or> is_object product"
    "py_getitem operation ''userErrors'' = Inr user_errors"
    by (auto simp: reports_complete_def reported_operation_def
        ebind_eq_Inr split: sum.splits)
  have "(if product = JNull then Inr JNull else py_get product ''id'' JNull)
      = Inr (field ''id'' product)"
    using r(7) by (cases product) (auto simp: field_def is_object_def split: option.splits)
  with r show ?thesis
    by (simp add: poll_once_def sbind_requests_post read_status_def emit_def)
qed


lemma poll_once_cases:
  assumes "poll_once w op s = (r, s')"
  shows "(\<exists>e. r = Inl e) \<or>
     (r = Inr Pending \<and> reports_pending (post_reply w (posts s)) \<and>
        s' = \<lparr>posts = Suc (posts s), trace = trace s @ [Post (ProductOperation op), Sleep]\<rparr>) \<or>
     (\<exists>product user_errors.
        r = Inr (Complete (JStr ''COMPLETE'') (field ''id'' product) user_errors) \<and>
        reports_complete (post_reply w (posts s)) product user_errors \<and>
        s' = \<lparr>posts = Suc (posts s), trace = trace s @ [Post (ProductOperation op)]\<rparr>)"
proof (cases "reported_operation (post_reply w (posts s))")
  case (Inl e)
  with assms show ?thesis
    by (auto simp: poll_once_def sbind_requests_post read_status_def reported_operation_def
        ebind_def split: sum.splits)
next
  case (Inr operation)
  then obtain response status_data d where r:
    "post_reply w (posts s) = Inr response" "json_body response = Inr status_data"
    "py_getitem status_data ''data'' = Inr d" "py_getitem d ''productOperation'' = Inr operation"
    by (auto simp: reported_operation_def ebind_eq_Inr)
  show ?thesis
  proof (cases "py_getitem operation ''status''")
    case (Inl e)
    with assms r show ?thesis
      by (auto simp: poll_once_def sbind_requests_post read_status_def)
  next
    case status: (Inr status)
    show ?thesis
    proof (cases "status = JStr ''COMPLETE''")
      case False
      with status Inr have pend: "reports_pending (post_reply w (posts s))"
        by (simp add: reports_pending_def reported_status_def)
      from poll_once_pending [OF pend, of op] assms pend show ?thesis by simp
    next
      case True
      show ?thesis
      proof (cases "\<exists>product user_errors.
          reports_complete (post_reply w (posts s)) product user_errors")
        case True
        then obtain product user_errors where
          "reports_complete (post_reply w (posts s)) product user_errors" by blast
        from poll_once_complete [OF this, of op] this assms show ?thesis by auto
      next
        case False
        with Inr status True have no: "\<And>product user_errors.
          py_getitem operation ''product'' = Inr product \<Longrightarrow>
          py_getitem operation ''userErrors'' = Inr user_errors \<Longrightarrow>
          \<not> (product = JNull \<or> is_object product)"
          by (auto simp: reports_complete_def)
        have "\<exists>e. read_status status_data = Inl e"
        proof (cases "py_getitem operation ''product''")
          case (Inl e)
          with r status True show ?thesis by (simp add: read_status_def)
        next
          case product: (Inr product)
          show ?thesis
          proof (cases "py_getitem operation ''userErrors''")
            case (Inl e)
            with r status True product show ?thesis
              by (cases "if product = JNull then Inr JNull else py_get product ''id'' JNull")
                 (simp_all add: read_status_def)
          next
            case (Inr user_errors)
            from no [OF product Inr] have "product \<noteq> JNull" "\<not> is_object product" by auto
            then have "\<exists>e. py_get product ''id'' JNull = Inl e"
              by (cases product) (auto simp: is_object_def)
            with r status True product \<open>product \<noteq> JNull\<close> show ?thesis
              by (auto simp: read_status_def)
          qed
        qed
        then obtain e where "read_status status_data = Inl e" ..
        with r have "fst (poll_once w op s) = Inl e"
          by (simp add: poll_once_def sbind_requests_post)
        with assms show ?thesis by simp
      qed
    qed
  qed
qed

lemma polled_Suc:
  "polled op n \<lparr>posts = Suc (posts s), trace = trace s @ [Post (ProductOperation op), Sleep]\<rparr>
     = polled op (Suc n) s"
  by (simp add: polled_def)

lemma polled_0:
  "\<lparr>posts = Suc (posts s), trace = trace s @ [Post (ProductOperation op)]\<rparr> = polled op 0 s"
  by (simp add: polled_def)

lemma check_operation_status_returns:
  assumes "\<forall>i<n. reports_pending (post_reply w (posts s + i))"
    and "reports_complete (post_reply w (posts s + n)) product user_errors"
  shows "check_operation_status w op s =
     Some (Inr (JStr ''COMPLETE'', field ''id'' product, user_errors), polled op n s)"
  using assms
proof (induction n arbitrary: s)
  case 0
  then have "reports_complete (post_reply w (posts s)) product user_errors" by simp
  from poll_once_complete [OF this, of op] show ?case
    by (subst check_operation_status.simps) (simp add: polled_0)
next
  case (Suc n)
  let ?s1 = "\<lparr>posts = Suc (posts s), trace = trace s @ [Post (ProductOperation op), Sleep]\<rparr>"
  from Suc.prems(1) have "reports_pending (post_reply w (posts s))" by force
  from poll_once_pending [OF this, of op]
  have step: "check_operation_status w op s = check_operation_status w op ?s1"
    by (subst check_operation_status.simps) simp
  have "\<forall>i<n. reports_pending (post_reply w (posts ?s1 + i))"
    using Suc.prems(1) by (auto dest: spec [of _ "Suc _"])
  moreover have "reports_complete (post_reply w (posts ?s1 + n)) product user_errors"
    using Suc.prems(2) by simp
  ultimately have "check_operation_status w op ?s1 =
     Some (Inr (JStr ''COMPLETE'', field ''id'' product, user_errors), polled op n ?s1)"
    by (rule Suc.IH)
  with step show ?case by (simp add: polled_Suc)
qed

lemmas check_operation_status_induct =
  check_operation_status.raw_induct [rotated 1, consumes 1, case_names step]

lemma check_operation_status_Some_not_all_pending:
  assumes "check_operation_status w op s = Some y"
  shows "\<not> (\<forall>i. reports_pending (post_reply w (posts s + i)))"
  using assms
proof (induction w op s y rule: check_operation_status_induct)
  case (step f w op s y)
  show ?case
  proof
    assume all: "\<forall>i. reports_pending (post_reply w (posts s + i))"
    let ?s1 = "\<lparr>posts = Suc (posts s), trace = trace s @ [Post (ProductOperation op), Sleep]\<rparr>"
    have "reports_pending (post_reply w (posts s))"
      using spec [OF all, of 0] by simp
    note pend = poll_once_pending [OF this, of op]
    from pend step.hyps have "f w op ?s1 = Some y" by simp
    then have "\<not> (\<forall>i. reports_pending (post_reply w (posts ?s1 + i)))"
      by (rule step.IH)
    moreover have "\<forall>i. reports_pending (post_reply w (posts ?s1 + i))"
      using all by (auto dest: spec [of _ "Suc _"])
    ultimately show False by contradiction
  qed
qed

lemma check_operation_status_diverges:
  assumes "\<forall>i. reports_pending (post_reply w (posts s + i))"
  shows "check_operation_status w op s = None"
  using check_operation_status_Some_not_all_pending [of w op s] assms
  by (cases "check_operation_status w op s") auto

lemma check_operation_status_Some_Inr:
  assumes "check_operation_status w op s = Some y"
    and "y = (Inr (status, product_id, user_errors), s')"
  shows "\<exists>n product.
     (\<forall>i<n. reports_pending (post_reply w (posts s + i))) \<and>
     reports_complete (post_reply w (posts s + n)) product user_errors \<and>
     status = JStr ''COMPLETE'' \<and> product_id = field ''id'' product \<and> s' = polled op n s"
  using assms
  proof (induction w op s y rule: check_operation_status_induct)
    case (step f w op s y)
    obtain r s1 where p: "poll_once w op s = (r, s1)" by (cases "poll_once w op s")
    from poll_once_cases [OF p] consider
      (raise) e where "r = Inl e"
      | (pending) "r = Inr Pending" "reports_pending (post_reply w (posts s))"
          "s1 = \<lparr>posts = Suc (posts s), trace = trace s @ [Post (ProductOperation op), Sleep]\<rparr>"
      | (complete) product errs where
          "r = Inr (Complete (JStr ''COMPLETE'') (field ''id'' product) errs)"
          "reports_complete (post_reply w (posts s)) product errs"
          "s1 = \<lparr>posts = Suc (posts s), trace = trace s @ [Post (ProductOperation op)]\<rparr>"
      by blast
    then show ?case
    proof cases
      case raise
      with step.hyps step.prems p show ?thesis by simp
    next
      case complete
      with step.hyps step.prems p have "status = JStr ''COMPLETE''" "product_id = field ''id'' product"
        "user_errors = errs" "s' = polled op 0 s"
        by (simp_all add: polled_0)
      with complete(2) show ?thesis
        by (intro exI [of _ 0] exI [of _ product]) simp
    next
      case pending
      with step.hyps p have "f w op s1 = Some y" by simp
      then obtain n product where n:
        "\<forall>i<n. reports_pending (post_reply w (posts s1 + i))"
        "reports_complete (post_reply w (posts s1 + n)) product user_errors"
        "status = JStr ''COMPLETE''" "product_id = field ''id'' product" "s' = polled op n s1"
        using step.IH step.prems by blast
      have "\<forall>i<Suc n. reports_pending (post_reply w (posts s + i))"
      proof (intro allI impI)
        fix i assume "i < Suc n"
        show "reports_pending (post_reply w (posts s + i))"
        proof (cases i)
          case 0
          with pending(2) show ?thesis by simp
        next
          case (Suc j)
          with \<open>i < Suc n\<close> n(1) pending(3) show ?thesis by auto
        qed
      qed
      moreover have "reports_complete (post_reply w (posts s + Suc n)) product user_errors"
        using n(2) pending(3) by simp
      moreover have "s' = polled op (Suc n) s"
        using n(5) pending(3) by (simp add: polled_Suc)
      ultimately show ?thesis using n(3,4) by blast
    qed
  qed

lemma check_operation_status_returned:
  assumes "check_operation_status w op s = Some (Inr (status, product_id, user_errors), s')"
  shows "\<exists>n product.
     (\<forall>i<n. reports_pending (post_reply w (posts s + i))) \<and>
     reports_complete (post_reply w (posts s + n)) product user_errors \<and>
     status = JStr ''COMPLETE'' \<and> product_id = field ''id'' product \<and> s' = polled op n s"
  using check_operation_status_Some_Inr [OF assms] by simp

section \<open>Offsets as text\<close>

lemma wire_roundtrip_plain_wire: "wire_roundtrip plain_wire"
  by (simp add: wire_roundtrip_def plain_wire_def offset_text_def)

declare nat_digits.simps [simp del]

lemma of_char_digit_char: "d < 10 \<Longrightarrow> (of_char (digit_char d) :: nat) = 48 + d"
  by (simp add: digit_char_def)

lemma digit_val_digit_char: "d < 10 \<Longrightarrow> digit_val (digit_char d) = Some d"
  by (simp add: digit_val_def of_char_digit_char)

lemma is_digit_digit_char: "d < 10 \<Longrightarrow> is_digit (digit_char d)"
  by (auto simp: is_digit_def)

lemma is_digit_not_special:
  assumes "is_digit c"
  shows "c \<noteq> CHR ''_''" "c \<noteq> CHR ''-''" "c \<noteq> CHR ''+''" "\<not> is_space c"
proof -
  from assms obtain d where d: "d < 10" "c = digit_char d" by (auto simp: is_digit_def)
  then have "(of_char c :: nat) = 48 + d" by (simp add: of_char_digit_char)
  with d(1) have r: "48 \<le> (of_char c :: nat)" "(of_char c :: nat) < 58" by simp_all
  from r show "c \<noteq> CHR ''_''" by auto
  from r show "c \<noteq> CHR ''-''" by auto
  from r show "c \<noteq> CHR ''+''" by auto
  from r show "\<not> is_space c" by (auto simp: is_space_def)
qed

lemma digit_val_is_digit: "is_digit c \<Longrightarrow> digit_val c = Some (of_char c - 48)"
  by (auto simp: is_digit_def digit_val_digit_char of_char_digit_char)

lemma digits_value_digits:
  "list_all is_digit ds \<Longrightarrow> digits_value acc ds = Some (foldl digit_step acc ds)"
proof (induction acc ds rule: digits_value.induct)
  case (1 acc)
  then show ?case by simp
next
  case (2 acc c)
  then show ?case by (simp add: digit_val_is_digit digit_step_def)
next
  case (3 acc c d cs)
  from "3.prems" have c: "is_digit c" and rest: "list_all is_digit (d # cs)" by simp_all
  from c have "c \<noteq> CHR ''_''" by (rule is_digit_not_special)
  with 3 c rest show ?case
    by (simp add: digit_val_is_digit digit_step_def)
qed

lemma nat_digits_all_digits: "list_all is_digit (nat_digits n)"
proof (induction n rule: nat_digits.induct)
  case (1 n)
  show ?case
  proof (cases "n < 10")
    case True
    then show ?thesis by (subst nat_digits.simps) (simp add: is_digit_digit_char)
  next
    case False
    with 1 show ?thesis
      by (subst nat_digits.simps) (simp add: is_digit_digit_char)
  qed
qed

lemma nat_digits_nonempty: "nat_digits n \<noteq> []"
  by (subst nat_digits.simps) simp

lemma foldl_digit_step_nat_digits: "foldl digit_step 0 (nat_digits n) = n"
proof (induction n rule: nat_digits.induct)
  case (1 n)
  show ?case
  proof (cases "n < 10")
    case True
    then show ?thesis
      by (subst nat_digits.simps) (simp add: digit_step_def of_char_digit_char)
  next
    case False
    with 1 have "foldl digit_step 0 (nat_digits (n div 10)) = n div 10" by simp
    with False show ?thesis
      by (subst nat_digits.simps) (simp add: digit_step_def of_char_digit_char)
  qed
qed

lemma unsigned_value_nat_digits: "unsigned_value (nat_digits n) = Some n"
proof -
  obtain c cs where cs: "nat_digits n = c # cs"
    using nat_digits_nonempty [of n] by (cases "nat_digits n") auto
  with nat_digits_all_digits [of n] have c: "is_digit c" and rest: "list_all is_digit cs"
    by simp_all
  have "unsigned_value (c # cs) = digits_value (of_char c - 48) cs"
    using c by (simp add: unsigned_value_def digit_val_is_digit)
  also have "\<dots> = Some (foldl digit_step (of_char c - 48) cs)"
    using rest by (rule digits_value_digits)
  also have "foldl digit_step (of_char c - 48) cs = foldl digit_step 0 (c # cs)"
    by (simp add: digit_step_def)
  finally show ?thesis
    using foldl_digit_step_nat_digits [of n] cs by simp
qed

lemma dropWhile_head: "\<not> P x \<Longrightarrow> dropWhile P (x # xs) = x # xs"
  by simp

lemma strip_unchanged:
  assumes "s \<noteq> []" "\<not> is_space (hd s)" "\<not> is_space (last s)"
  shows "strip s = s"
proof -
  from assms(1,2) have 1: "dropWhile is_space s = s" by (cases s) simp_all
  from assms(1,3) have "dropWhile is_space (rev s) = rev s"
    by (cases "rev s") (simp_all add: last_rev [symmetric] hd_rev)
  with 1 show ?thesis by (simp add: strip_def)
qed

lemma nat_digits_ends: "is_digit (hd (nat_digits n))" "is_digit (last (nat_digits n))"
proof -
  have "\<forall>c \<in> set (nat_digits n). is_digit c"
    using nat_digits_all_digits [of n] by (simp add: list_all_iff)
  moreover have "hd (nat_digits n) \<in> set (nat_digits n)"
    "last (nat_digits n) \<in> set (nat_digits n)"
    using nat_digits_nonempty [of n] by simp_all
  ultimately show "is_digit (hd (nat_digits n))" "is_digit (last (nat_digits n))"
    by blast+
qed

lemma int_of_string_py_str: "int_of_string (py_str n) = Inr n"
proof (cases "n < 0")
  case True
  let ?m = "nat (- n)"
  have "\<not> is_space CHR ''-''" by (simp add: is_space_def)
  moreover have "last (CHR ''-'' # nat_digits ?m) = last (nat_digits ?m)"
    using nat_digits_nonempty [of ?m] by simp
  ultimately have s: "strip (CHR ''-'' # nat_digits ?m) = CHR ''-'' # nat_digits ?m"
    by (intro strip_unchanged) (simp_all add: is_digit_not_special nat_digits_ends)
  from True show ?thesis
    by (simp add: py_str_def int_of_string_def s unsigned_value_nat_digits)
next
  case False
  let ?m = "nat n"
  obtain c cs where cs: "nat_digits ?m = c # cs"
    using nat_digits_nonempty [of ?m] by (cases "nat_digits ?m") auto
  from nat_digits_ends [of ?m] cs have c: "is_digit c" by simp
  have s: "strip (nat_digits ?m) = nat_digits ?m"
    by (rule strip_unchanged)
       (simp_all add: nat_digits_nonempty is_digit_not_special nat_digits_ends)
  from unsigned_value_nat_digits [of ?m] cs have "unsigned_value (c # cs) = Some ?m" by simp
  with False cs s c show ?thesis
    by (simp add: py_str_def int_of_string_def is_digit_not_special)
qed

lemma decode_offset_roundtrip:
  assumes "wire_roundtrip c"
  shows "decode_offset c (pubsub_event c (offset_message c n)) = Inr n"
  using assms
  by (simp add: decode_offset_def pubsub_event_def offset_message_def wire_roundtrip_def
      int_of_string_py_str)

section \<open>The example worlds\<close>

lemmas mapper_defs =
  map_catalogiq_to_shopify_def map_catalogiq_to_shopify_mian_def collect_option_names_def
  add_variant_names_def add_attribute_name_def py_set_add_def py_eq_def
  map_variants_def map_variants_mian_def map_variant_def add_option_value_def
  build_product_options_def add_product_option_def add_variant_values_def
  add_attribute_value_def unique_values_def description_html_def description_html_mian_def
  metafields_def

lemma field_JNull [simp]: "field k JNull = JNull"
  by (simp add: field_def)

lemma if_JNull_field: "(if p = JNull then JNull else field k p) = field k p"
  by simp

lemma created_reply_pending: "reports_pending created_reply"
  by (simp add: reports_pending_def reported_status_def reported_operation_def
      created_reply_def operation_reply_def ok_reply_def)

lemma complete_reply_complete:
  "reports_complete complete_reply
     (JDict [(''id'', JStr ''gid://shopify/Product/1''), (''title'', JStr ''Lamp'')])
     (JList [])"
  by (simp add: reports_complete_def reported_operation_def complete_reply_def
      operation_reply_def ok_reply_def is_object_def)

lemma nameless_product_raises:
  "map_catalogiq_to_shopify id id nameless_product = Inl KeyError"
  "map_catalogiq_to_shopify_mian id id nameless_product = Inl KeyError"
  by (simp_all add: nameless_product_def mapper_defs)

lemma plain_product_mapped:
  "map_catalogiq_to_shopify id id plain_product =
     Inr (JDict [(''title'', JStr ''Lamp''), (''vendor'', JStr ''Vendor Name''),
                 (''descriptionHtml'', JStr ''''), (''productOptions'', JList []),
                 (''variants'', JList []), (''metafields'', JList [])])"
  by (simp add: plain_product_def mapper_defs)


section \<open>Processing a page\<close>

lemma submissions_append [simp]: "submissions (a @ b) = submissions a @ submissions b"
  by (induction a rule: submissions.induct) simp_all

lemma publications_append [simp]: "publications (a @ b) = publications a @ publications b"
  by (induction a rule: publications.induct) simp_all

lemma notifications_append [simp]: "notifications (a @ b) = notifications a + notifications b"
  by (induction a rule: notifications.induct) simp_all

lemma quiet_events:
  "list_all quiet_event t \<Longrightarrow>
   submissions t = [] \<and> publications t = [] \<and> notifications t = 0"
proof (induction t)
  case Nil
  then show ?case by simp
next
  case (Cons e t)
  then show ?case by (cases e rule: quiet_event.cases) simp_all
qed

lemma quiet_step_refl [simp]: "quiet_step s s"
  by (simp add: quiet_step_def)

lemma quiet_step_trans: "quiet_step s s' \<Longrightarrow> quiet_step s' s'' \<Longrightarrow> quiet_step s s''"
  by (auto simp: quiet_step_def)

lemma quiet_step_observed:
  assumes "quiet_step s s'"
  shows "submissions (trace s') = submissions (trace s)"
    and "publications (trace s') = publications (trace s)"
    and "notifications (trace s') = notifications (trace s)"
  using assms quiet_events by (auto simp: quiet_step_def)

lemma quiet_act_lift [simp]: "quiet_act (lift r)"
  by (simp add: quiet_act_def lift_def)

lemma quiet_act_sbind:
  assumes "quiet_act m" and "\<And>x. quiet_act (f x)"
  shows "quiet_act (sbind m f)"
  unfolding quiet_act_def
proof
  fix s
  obtain r s1 where m: "m s = (r, s1)" by (cases "m s")
  with assms(1) have 1: "quiet_step s s1" by (auto simp: quiet_act_def dest: spec [of _ s])
  show "quiet_step s (snd (sbind m f s))"
  proof (cases r)
    case (Inl e)
    with m 1 show ?thesis by (simp add: sbind_def)
  next
    case (Inr x)
    from assms(2) [of x] have "quiet_step s1 (snd (f x s1))" by (simp add: quiet_act_def)
    with 1 m Inr show ?thesis by (auto simp: sbind_def intro: quiet_step_trans)
  qed
qed

lemma quiet_act_sfold:
  assumes "\<And>x. quiet_act (f x)"
  shows "quiet_act (sfold f xs)"
proof (induction xs)
  case Nil
  show ?case by (simp add: quiet_act_def)
next
  case (Cons x xs)
  have "sfold f (x # xs) = sbind (f x) (\<lambda>u. sfold f xs)" by (rule ext) simp
  with quiet_act_sbind [OF assms [of x], of "\<lambda>u. sfold f xs"] Cons show ?case by simp
qed

lemma quiet_act_post_media [simp]:
  "quiet_act (requests_post w (ProductCreateMedia alt url product_id))"
  by (simp add: quiet_act_def quiet_step_def requests_post_def emit_def)

lemma quiet_act_post_operation [simp]:
  "quiet_act (requests_post w (ProductOperation operation_id))"
  by (simp add: quiet_act_def quiet_step_def requests_post_def emit_def)

lemma quiet_act_if:
  "quiet_act a \<Longrightarrow> quiet_act b \<Longrightarrow> quiet_act (if c then a else b)"
  by simp

lemma quiet_act_attach_image: "quiet_act (attach_image w product_id img)"
  unfolding attach_image_def by (intro quiet_act_sbind quiet_act_lift quiet_act_post_media)

lemma quiet_act_attach_media: "quiet_act (attach_media w ciq_product product_id)"
  unfolding attach_media_def
  by (intro quiet_act_sbind quiet_act_lift quiet_act_post_media quiet_act_if
      quiet_act_sfold quiet_act_attach_image)

lemma quiet_act_poll_once: "quiet_act (poll_once w operation_id)"
proof -
  have "quiet_act (\<lambda>s. case p of
         Complete status product_id user_errors \<Rightarrow> (Inr p, s)
       | Pending \<Rightarrow> (Inr p, emit Sleep s))" for p :: poll
    by (cases p) (simp_all add: quiet_act_def quiet_step_def emit_def)
  then show ?thesis
    unfolding poll_once_def
    by (intro quiet_act_sbind quiet_act_lift quiet_act_post_operation)
qed

lemma check_operation_status_quiet:
  assumes "check_operation_status w op s = Some y"
  shows "quiet_step s (snd y)"
  using assms
proof (induction w op s y rule: check_operation_status_induct)
  case (step f w op s y)
  obtain r s1 where p: "poll_once w op s = (r, s1)" by (cases "poll_once w op s")
  with quiet_act_poll_once [of w op] have q: "quiet_step s s1"
    by (auto simp: quiet_act_def dest: spec [of _ s])
  show ?case
  proof (cases r)
    case (Inl e)
    with step.hyps p q show ?thesis by auto
  next
    case (Inr pl)
    show ?thesis
    proof (cases pl)
      case (Complete st pid errs)
      with Inr step.hyps p q show ?thesis by auto
    next
      case Pending
      with Inr step.hyps p have "f w op s1 = Some y" by simp
      from step.IH [OF this] q show ?thesis by (rule quiet_step_trans [rotated])
    qed
  qed
qed

lemma check_operation_status_settles_after:
  assumes "\<forall>i<n. reports_pending (post_reply w (posts s + i))"
    and "\<not> reports_pending (post_reply w (posts s + n))"
  shows "\<exists>y. check_operation_status w op s = Some y"
  using assms
proof (induction n arbitrary: s)
  case 0
  obtain r s1 where p: "poll_once w op s = (r, s1)" by (cases "poll_once w op s")
  from poll_once_cases [OF p] "0.prems"(2) have "r \<noteq> Inr Pending" by auto
  with p show ?case
    by (subst check_operation_status.simps) (auto split: sum.splits poll.splits)
next
  case (Suc n)
  let ?s1 = "\<lparr>posts = Suc (posts s), trace = trace s @ [Post (ProductOperation op), Sleep]\<rparr>"
  from Suc.prems(1) have "reports_pending (post_reply w (posts s))" by force
  from poll_once_pending [OF this, of op]
  have step: "check_operation_status w op s = check_operation_status w op ?s1"
    by (subst check_operation_status.simps) simp
  have "\<forall>i<n. reports_pending (post_reply w (posts ?s1 + i))"
    using Suc.prems(1) by (auto dest: spec [of _ "Suc _"])
  moreover have "\<not> reports_pending (post_reply w (posts ?s1 + n))"
    using Suc.prems(2) by simp
  ultimately have "\<exists>y. check_operation_status w op ?s1 = Some y"
    by (rule Suc.IH)
  with step show ?case by simp
qed

lemma check_operation_status_terminates:
  assumes "polls_settle w"
  shows "\<exists>y. check_operation_status w op s = Some y"
proof -
  from assms obtain j where j: "posts s \<le> j" "\<not> reports_pending (post_reply w j)"
    unfolding polls_settle_def by blast
  define Q where "Q n = (\<not> reports_pending (post_reply w (posts s + n)))" for n
  from j have "Q (j - posts s)" by (simp add: Q_def)
  then have least: "Q (LEAST n. Q n)" by (rule LeastI)
  have below: "\<not> Q i" if "i < (LEAST n. Q n)" for i
    using that by (rule not_less_Least)
  show ?thesis
    by (rule check_operation_status_settles_after [of "LEAST n. Q n"])
       (use least below in \<open>auto simp: Q_def\<close>)
qed

lemma snd_lift [simp]: "snd (lift r s) = s"
  by (simp add: lift_def)

lemma snd_sbind_lift:
  "snd (sbind (lift a) f s) = (case a of Inl e \<Rightarrow> s | Inr x \<Rightarrow> snd (f x s))"
  by (cases a) simp_all

lemma submit_product_trace:
  "\<exists>r s'. submit_product w p s = (r, s') \<and>
     (\<exists>t. trace s' = trace s @ t \<and> submissions t = mappable w p \<and>
          publications t = [] \<and> notifications t = 0)"
proof (cases "map_catalogiq_to_shopify (names_order w) (values_order w) p")
  case (Inl e)
  then show ?thesis by (simp add: submit_product_def mappable_def)
next
  case (Inr m)
  then have "trace (snd (submit_product w p s)) = trace s @ [Post (ProductSet m)]"
    by (simp add: submit_product_def sbind_requests_post emit_def snd_sbind_lift
        split: sum.splits)
  with Inr show ?thesis
    by (cases "submit_product w p s") (auto simp: mappable_def)
qed

lemma finish_product_quiet: "quiet_step s (snd (finish_product w p response product_id s))"
  using quiet_act_attach_media [of w p product_id]
  by (simp add: finish_product_def quiet_act_def)

lemma sync_products_to_shopify_trace:
  assumes "polls_settle w"
  shows "\<exists>r s'. sync_products_to_shopify w p s = Some (r, s') \<and>
     submissions (trace s') = submissions (trace s) @ mappable w p \<and>
     publications (trace s') = publications (trace s) \<and>
     notifications (trace s') = notifications (trace s)"
proof -
  from submit_product_trace [of w p s] obtain r s1 t where
    sub: "submit_product w p s = (r, s1)" "trace s1 = trace s @ t"
    "submissions t = mappable w p" "publications t = []" "notifications t = 0"
    by blast
  show ?thesis
  proof (cases r)
    case (Inl e)
    with sub show ?thesis by (simp add: sync_products_to_shopify_def)
  next
    case (Inr ro)
    obtain response operation_id where ro: "ro = (response, operation_id)" by (cases ro)
    from check_operation_status_terminates [OF assms, of operation_id s1]
    obtain r2 s2 where chk: "check_operation_status w operation_id s1 = Some (r2, s2)"
      by auto
    from check_operation_status_quiet [OF chk] have q2: "quiet_step s1 s2" by simp
    show ?thesis
    proof (cases r2)
      case (Inl e)
      with sub Inr ro chk quiet_step_observed [OF q2] show ?thesis
        by (simp add: sync_products_to_shopify_def)
    next
      case r2: (Inr triple)
      obtain status product_id user_errors where
        triple: "triple = (status, product_id, user_errors)" by (cases triple)
      let ?f = "finish_product w p response product_id s2"
      from finish_product_quiet [of s2 w p response product_id] q2
      have "quiet_step s1 (snd ?f)" by (rule quiet_step_trans [rotated])
      from quiet_step_observed [OF this] sub Inr ro chk r2 triple show ?thesis
        by (cases ?f) (simp add: sync_products_to_shopify_def)
    qed
  qed
qed

lemma process_page_trace:
  assumes "polls_settle w"
  shows "\<exists>s'. process_page w page s = Some s' \<and>
     submissions (trace s') = submissions (trace s) @ concat (map (mappable w) page) \<and>
     publications (trace s') = publications (trace s) \<and>
     notifications (trace s') = notifications (trace s)"
proof (induction page arbitrary: s)
  case Nil
  show ?case by simp
next
  case (Cons p page)
  from sync_products_to_shopify_trace [OF assms, of p s] obtain r s1 where
    1: "sync_products_to_shopify w p s = Some (r, s1)"
    "submissions (trace s1) = submissions (trace s) @ mappable w p"
    "publications (trace s1) = publications (trace s)"
    "notifications (trace s1) = notifications (trace s)"
    by blast
  from Cons [of s1] 1 show ?case by auto
qed

section \<open>Claims about the field mapper\<close>

text \<open>
  C1: whenever \<^verbatim>\<open>map_catalogiq_to_shopify\<close> of main.py returns, \<^verbatim>\<open>productOptions\<close> is
  a list with exactly one entry per distinct attribute name of the variants: no two
  entries have the same name, every entry's name is the name of some variant's attribute,
  and every such name has its entry. The \<^verbatim>\<open>values\<close> of each entry hold no value twice,
  and each is the value of an attribute of that name in some variant. Names and values
  are distinct as Python compares them (\<open>py_key\<close>: \<^verbatim>\<open>True\<close> is \<^verbatim>\<open>1\<close>). This holds for
  any number of variants, none included, and for every iteration order of the two sets.
\<close>

theorem product_options_axes_and_values:
  assumes "set_iteration names_iter" and "set_iteration values_iter"
    and "map_catalogiq_to_shopify names_iter values_iter p = Inr out"
  shows "\<exists>opts. py_getitem out ''productOptions'' = Inr (JList opts) \<and>
     distinct (map (\<lambda>opt. py_key (field ''name'' opt)) opts) \<and>
     set (map (field ''name'') opts) \<subseteq> set (attribute_names p) \<and>
     py_key ` set (map (field ''name'') opts) = py_key ` set (attribute_names p) \<and>
     (\<forall>opt \<in> set opts. \<exists>vals. py_getitem opt ''values'' = Inr (JList vals) \<and>
        distinct (map (\<lambda>e. py_key (field ''name'' e)) vals) \<and>
        set (map (field ''name'') vals)
          \<subseteq> set (assigned_values (field ''name'' opt) (variants_of p)))"
proof -
  let ?N = "names_iter (option_names_of p)"
  let ?opts = "map (mapped_option values_iter (variants_of p)) ?N"
  from map_catalogiq_to_shopify_eq [OF assms(3)]
  have out: "py_getitem out ''productOptions'' = Inr (JList ?opts)"
    by auto
  have names: "map (field ''name'') ?opts = ?N"
    by (simp add: comp_def)
  have "distinct (map py_key ?N)"
    by (rule set_iteration_distinct [OF assms(1) distinct_option_names])
  then have 1: "distinct (map (\<lambda>opt. py_key (field ''name'' opt)) ?opts)"
    by (simp add: comp_def)
  have setN: "set ?N = set (option_names_of p)"
    by (rule set_iteration_set [OF assms(1)])
  have 2: "set (map (field ''name'') ?opts) \<subseteq> set (attribute_names p)"
    unfolding names setN by (rule set_option_names)
  have 3: "py_key ` set (map (field ''name'') ?opts) = py_key ` set (attribute_names p)"
    unfolding names setN by (rule keys_option_names)
  have 4: "\<forall>opt \<in> set ?opts. \<exists>vals. py_getitem opt ''values'' = Inr (JList vals) \<and>
        distinct (map (\<lambda>e. py_key (field ''name'' e)) vals) \<and>
        set (map (field ''name'') vals)
          \<subseteq> set (assigned_values (field ''name'' opt) (variants_of p))"
  proof
    fix opt assume "opt \<in> set ?opts"
    then obtain n where opt: "opt = mapped_option values_iter (variants_of p) n" by auto
    show "\<exists>vals. py_getitem opt ''values'' = Inr (JList vals) \<and>
        distinct (map (\<lambda>e. py_key (field ''name'' e)) vals) \<and>
        set (map (field ''name'') vals)
          \<subseteq> set (assigned_values (field ''name'' opt) (variants_of p))"
      unfolding opt mapped_option_name by (rule mapped_option_values [OF assms(2)])
  qed
  from out 1 2 3 4 show ?thesis by blast
qed

theorem product_options_axes_and_values_witness:
  "set_iteration rev \<and> set_iteration id \<and>
   (\<exists>out. map_catalogiq_to_shopify rev id two_sizes = Inr out \<and>
     (\<exists>opts. py_getitem out ''productOptions'' = Inr (JList opts) \<and>
       distinct (map (\<lambda>opt. py_key (field ''name'' opt)) opts) \<and>
       set (map (field ''name'') opts) \<subseteq> set (attribute_names two_sizes) \<and>
       py_key ` set (map (field ''name'') opts) = py_key ` set (attribute_names two_sizes) \<and>
       (\<forall>opt \<in> set opts. \<exists>vals. py_getitem opt ''values'' = Inr (JList vals) \<and>
          distinct (map (\<lambda>e. py_key (field ''name'' e)) vals) \<and>
          set (map (field ''name'') vals)
            \<subseteq> set (assigned_values (field ''name'' opt) (variants_of two_sizes)))))"
proof -
  note concl = product_options_axes_and_values
      [OF set_iteration_rev set_iteration_id two_sizes_mapped]
  show ?thesis
    apply (rule conjI, rule set_iteration_rev)
    apply (rule conjI, rule set_iteration_id)
    apply (rule exI, rule conjI, rule two_sizes_mapped)
    apply (rule concl)
    done
qed

text \<open>
  C2, as stated: a mapped variant has an \<^verbatim>\<open>optionValues\<close> entry for an axis if and only
  if the source variant has an attribute of that name. It does not hold: line 53 of
  main.py (\<^verbatim>\<open>if attribute_value:\<close>) drops a value that is falsy. The variant of
  \<open>blank_size\<close> has an attribute named \<^verbatim>\<open>Size\<close> whose value is the empty string, and
  its mapped variant has no entry for \<^verbatim>\<open>Size\<close>.
\<close>

theorem blank_value_has_no_option_entry:
  "\<exists>out ws ovs.
     map_catalogiq_to_shopify id id blank_size = Inr out \<and>
     py_getitem out ''variants'' = Inr (JList ws) \<and>
     py_getitem (ws ! 0) ''optionValues'' = Inr (JList ovs) \<and>
     (\<exists>a \<in> set (attributes_of (variants_of blank_size ! 0)). named (JStr ''Size'') a) \<and>
     \<not> (\<exists>e \<in> set ovs. py_eq (field ''optionName'' e) (JStr ''Size''))"
proof -
  have ev: "map_catalogiq_to_shopify id id blank_size =
    Inr (JDict
      [(''title'', JStr ''Lamp''), (''vendor'', JStr ''Vendor Name''),
       (''descriptionHtml'', JStr ''''),
       (''productOptions'', JList
          [JDict [(''name'', JStr ''Size''),
                  (''values'', JList [JDict [(''name'', JStr '''')]])]]),
       (''variants'', JList
          [JDict [(''sku'', JStr ''L-1''), (''optionValues'', JList [])]]),
       (''metafields'', JList [])])"
    by code_simp
  have a: "\<exists>a \<in> set (attributes_of (variants_of blank_size ! 0)). named (JStr ''Size'') a"
    by (simp add: blank_size_def variants_of_def attributes_of_def field_def items_def
        named_def)
  from ev a show ?thesis by simp
qed

text \<open>
  C2, amended: whenever the mapper of main.py returns, it has mapped every variant, in
  order, and the \<^verbatim>\<open>optionValues\<close> of the mapped variant contain an entry for axis A if
  and only if the first attribute named A of the source variant has a truthy value (not
  \<^verbatim>\<open>None\<close>, \<^verbatim>\<open>False\<close>, \<^verbatim>\<open>0\<close> or empty). Every entry carries the value of the first
  attribute of its axis' name; an axis the variant does not name is omitted, never
  padded with nulls.
\<close>

theorem variant_option_values_sparse:
  assumes "set_iteration names_iter"
    and "map_catalogiq_to_shopify names_iter values_iter p = Inr out"
  shows "\<exists>ws. py_getitem out ''variants'' = Inr (JList ws) \<and>
     length ws = length (variants_of p) \<and>
     (\<forall>i < length ws. \<exists>ovs. py_getitem (ws ! i) ''optionValues'' = Inr (JList ovs) \<and>
        (\<forall>A. (\<exists>e \<in> set ovs. py_eq (field ''optionName'' e) A) \<longleftrightarrow>
             (\<exists>a. first_named A (variants_of p ! i) = Some a \<and>
                  py_truthy (field ''value'' a))) \<and>
        (\<forall>e \<in> set ovs. \<exists>a. first_named (field ''optionName'' e) (variants_of p ! i) = Some a \<and>
             field ''name'' e = field ''value'' a))"
proof -
  let ?N = "names_iter (option_names_of p)"
  let ?ws = "map (mapped_variant ?N) (variants_of p)"
  from map_catalogiq_to_shopify_eq [OF assms(2)]
  have out: "py_getitem out ''variants'' = Inr (JList ?ws)"
    by auto
  have setN: "set ?N = set (option_names_of p)"
    by (rule set_iteration_set [OF assms(1)])
  have "\<exists>ovs. py_getitem (?ws ! i) ''optionValues'' = Inr (JList ovs) \<and>
        (\<forall>A. (\<exists>e \<in> set ovs. py_eq (field ''optionName'' e) A) \<longleftrightarrow>
             (\<exists>a. first_named A (variants_of p ! i) = Some a \<and>
                  py_truthy (field ''value'' a))) \<and>
        (\<forall>e \<in> set ovs. \<exists>a. first_named (field ''optionName'' e) (variants_of p ! i) = Some a \<and>
             field ''name'' e = field ''value'' a)"
    if i: "i < length ?ws" for i
  proof -
    let ?v = "variants_of p ! i"
    let ?ovs = "concat (map (option_entry ?v) ?N)"
    from i have v: "?v \<in> set (variants_of p)" by simp
    from i have 1: "py_getitem (?ws ! i) ''optionValues'' = Inr (JList ?ovs)"
      by (simp add: mapped_variant_def)
    have 2: "\<forall>A. (\<exists>e \<in> set ?ovs. py_eq (field ''optionName'' e) A) \<longleftrightarrow>
             (\<exists>a. first_named A ?v = Some a \<and> py_truthy (field ''value'' a))"
      using option_values_iff [OF setN v] by blast
    have 3: "\<forall>e \<in> set ?ovs. \<exists>a. first_named (field ''optionName'' e) ?v = Some a \<and>
             field ''name'' e = field ''value'' a"
      using option_entry_member by fastforce
    from 1 2 3 show ?thesis by blast
  qed
  with out show ?thesis by (intro exI [of _ ?ws]) simp
qed

theorem variant_option_values_sparse_witness:
  "set_iteration rev \<and>
   (\<exists>out. map_catalogiq_to_shopify rev id two_sizes = Inr out \<and>
     (\<exists>ws. py_getitem out ''variants'' = Inr (JList ws) \<and>
       length ws = length (variants_of two_sizes) \<and>
       (\<forall>i < length ws. \<exists>ovs. py_getitem (ws ! i) ''optionValues'' = Inr (JList ovs) \<and>
          (\<forall>A. (\<exists>e \<in> set ovs. py_eq (field ''optionName'' e) A) \<longleftrightarrow>
               (\<exists>a. first_named A (variants_of two_sizes ! i) = Some a \<and>
                    py_truthy (field ''value'' a))) \<and>
          (\<forall>e \<in> set ovs.
             \<exists>a. first_named (field ''optionName'' e) (variants_of two_sizes ! i) = Some a \<and>
                 field ''name'' e = field ''value'' a))))"
proof -
  note concl = variant_option_values_sparse [OF set_iteration_rev two_sizes_mapped]
  show ?thesis
    apply (rule conjI, rule set_iteration_rev)
    apply (rule exI, rule conjI, rule two_sizes_mapped)
    apply (rule concl)
    done
qed

text \<open>
  C3, as stated: the mapper fails only when \<^verbatim>\<open>name\<close> or \<^verbatim>\<open>variants\<close> is absent. It
  does not hold: a product with both fields and no \<^verbatim>\<open>attributes\<close> key raises
  \<^verbatim>\<open>KeyError\<close> at line 90 of main.py.
\<close>

theorem mapping_fails_without_attributes:
  "py_getitem (JDict [(''name'', JStr ''Lamp''), (''variants'', JList [])]) ''name''
     = Inr (JStr ''Lamp'') \<and>
   py_getitem (JDict [(''name'', JStr ''Lamp''), (''variants'', JList [])]) ''variants''
     = Inr (JList []) \<and>
   map_catalogiq_to_shopify id id
     (JDict [(''name'', JStr ''Lamp''), (''variants'', JList [])]) = Inl KeyError"
  by (simp add: map_catalogiq_to_shopify_def collect_option_names_def map_variants_def
      build_product_options_def description_html_def metafields_def)

text \<open>
  C3, amended: the mapper is a function of the product (and of the two set iteration
  orders) that fails only when a field it reads is absent or of the wrong shape. For
  every source product in which \<^verbatim>\<open>name\<close>, \<^verbatim>\<open>variants\<close> and \<^verbatim>\<open>attributes\<close> are
  present, every variant has a \<^verbatim>\<open>default_code\<close> and iterable \<^verbatim>\<open>attributes\<close> whose
  items each have a hashable \<^verbatim>\<open>name\<close> and a hashable \<^verbatim>\<open>value\<close>, and every product
  attribute has \<^verbatim>\<open>category\<close>, \<^verbatim>\<open>description\<close>, \<^verbatim>\<open>name\<close> and \<^verbatim>\<open>value\<close>
  (\<open>wf_product\<close>), mapping succeeds, whatever the iteration orders.
\<close>

theorem mapping_succeeds_on_well_formed:
  assumes "wf_product p"
  shows "\<exists>out. map_catalogiq_to_shopify names_iter values_iter p = Inr out"
proof -
  obtain names where 1: "collect_option_names p = Inr names"
    using collect_option_names_ok [OF assms] by blast
  obtain ws where 2: "map_variants (names_iter names) p = Inr ws"
    using map_variants_ok [OF assms] by blast
  obtain opts where 3: "build_product_options values_iter (names_iter names) p = Inr opts"
    using build_product_options_ok [OF assms] by blast
  obtain t where 4: "py_getitem p ''name'' = Inr t"
    using assms unfolding wf_product_def by (auto elim!: field_okE)
  obtain d where 5: "description_html p = Inr d"
    using description_html_ok [OF assms] by blast
  obtain ms where 6: "metafields p = Inr ms"
    using metafields_ok [OF assms] by blast
  show ?thesis
    by (simp add: map_catalogiq_to_shopify_def 1 2 3 4 5 6)
qed

theorem mapping_succeeds_on_well_formed_witness:
  "wf_product
     (JDict [(''name'', JStr ''Lamp''),
             (''variants'', JList
                [JDict [(''default_code'', JStr ''L-1''),
                        (''attributes'', JList
                           [JDict [(''name'', JStr ''Size''), (''value'', JStr ''S'')]])]]),
             (''attributes'', JList
                [JDict [(''category'', JStr ''Specs''), (''description'', JStr ''Wattage''),
                        (''name'', JStr ''watt''), (''value'', JInt 40)]])]) \<and>
   (\<exists>out. map_catalogiq_to_shopify id rev
     (JDict [(''name'', JStr ''Lamp''),
             (''variants'', JList
                [JDict [(''default_code'', JStr ''L-1''),
                        (''attributes'', JList
                           [JDict [(''name'', JStr ''Size''), (''value'', JStr ''S'')]])]]),
             (''attributes'', JList
                [JDict [(''category'', JStr ''Specs''), (''description'', JStr ''Wattage''),
                        (''name'', JStr ''watt''), (''value'', JInt 40)]])]) = Inr out)"
proof -
  have wf: "wf_product
     (JDict [(''name'', JStr ''Lamp''),
             (''variants'', JList
                [JDict [(''default_code'', JStr ''L-1''),
                        (''attributes'', JList
                           [JDict [(''name'', JStr ''Size''), (''value'', JStr ''S'')]])]]),
             (''attributes'', JList
                [JDict [(''category'', JStr ''Specs''), (''description'', JStr ''Wattage''),
                        (''name'', JStr ''watt''), (''value'', JInt 40)]])])"
    by (simp add: wf_product_def wf_variant_def wf_variant_attribute_def
        wf_product_attribute_def field_ok_def items_ok_def)
  from wf mapping_succeeds_on_well_formed [OF wf, of id rev] show ?thesis
    by (rule conjI)
qed

text \<open>
  C4 on main.py (line 81): when \<^verbatim>\<open>ciq_product.get('description_sale')\<close> is falsy
  (the key is absent, or its value is \<^verbatim>\<open>None\<close>, \<^verbatim>\<open>False\<close>, \<^verbatim>\<open>0\<close> or empty), the
  mapped \<^verbatim>\<open>descriptionHtml\<close> is the empty string.
\<close>

lemma main_description_html_falsy:
  assumes "py_get p ''description_sale'' JNull = Inr d" and "\<not> py_truthy d"
    and "map_catalogiq_to_shopify names_iter values_iter p = Inr out"
  shows "py_getitem out ''descriptionHtml'' = Inr (JStr '''')"
proof -
  from assms(1,2) have "description_html p = Inr (JStr '''')"
    by (simp add: description_html_def)
  with assms(3) show ?thesis
    by (auto simp: map_catalogiq_to_shopify_def ebind_eq_Inr)
qed

text \<open>
  C4 on mian.py (line 86): \<^verbatim>\<open>ciq_product.get('description_sale', '')\<close> falls back to
  \<^verbatim>\<open>''\<close> only when the key is absent. A product whose \<^verbatim>\<open>description_sale\<close> is
  \<^verbatim>\<open>None\<close> is mapped to \<^verbatim>\<open>descriptionHtml = None\<close>, not to the empty string.
\<close>

theorem mian_description_html_null:
  "map_catalogiq_to_shopify_mian id id
     (JDict [(''name'', JStr ''Lamp''), (''description_sale'', JNull),
             (''variants'', JList []), (''attributes'', JList [])])
   = Inr (JDict [(''title'', JStr ''Lamp''),
                 (''vendor'', JStr ''Vendor Name''),
                 (''descriptionHtml'', JNull),
                 (''productOptions'', JList []),
                 (''variants'', JList []),
                 (''metafields'', JList [])])"
  by (simp add: map_catalogiq_to_shopify_mian_def collect_option_names_def
      map_variants_mian_def build_product_options_def description_html_mian_def
      metafields_def)

text \<open>
  C9, as stated: mian.py cuts the variants to the first 99 before the option values are
  aggregated, so that its axis values come from the first 99 variants only. It does not
  hold: only the loop of line 53 runs over \<^verbatim>\<open>ciq_product['variants'][:99]\<close>; the loops
  of lines 46 and 70 run over all variants. For \<open>hundred_variants\<close> mian.py emits 99
  variants, and its \<^verbatim>\<open>Size\<close> axis lists \<^verbatim>\<open>XL\<close>, a value that none of the first 99
  variants assigns.
\<close>

theorem mian_axis_values_from_all_variants:
  "\<exists>out ws opts vals.
     map_catalogiq_to_shopify_mian id id hundred_variants = Inr out \<and>
     py_getitem out ''variants'' = Inr (JList ws) \<and> length ws = 99 \<and>
     py_getitem out ''productOptions'' = Inr (JList opts) \<and>
     field ''name'' (opts ! 0) = JStr ''Size'' \<and>
     py_getitem (opts ! 0) ''values'' = Inr (JList vals) \<and>
     JDict [(''name'', JStr ''XL'')] \<in> set vals \<and>
     JStr ''XL'' \<notin>
       set (assigned_values (JStr ''Size'') (take 99 (variants_of hundred_variants)))"
  using hundred_variants_first_99
  by (simp add: hundred_variants_mapped_mian field_def)

text \<open>
  C9, amended: mian.py cuts the emitted variants to the first 99; main.py applies no
  truncation and maps all variants. In both, the option axes and the axis values of
  \<^verbatim>\<open>productOptions\<close> are aggregated over all variants, those past the 99th included.
  Where both mappers return, their results are the two dictionaries below: equal in
  \<^verbatim>\<open>title\<close>, \<^verbatim>\<open>vendor\<close>, \<^verbatim>\<open>productOptions\<close> and \<^verbatim>\<open>metafields\<close>; the
  \<^verbatim>\<open>variants\<close> of mian.py are the first 99 of those of main.py; and
  \<^verbatim>\<open>descriptionHtml\<close> is \<^verbatim>\<open>ciq_product.get('description_sale', '')\<close> in mian.py, and
  the empty string for every falsy description in main.py. On a product whose
  \<^verbatim>\<open>variants\<close> are a list, mian.py's mapper returns whenever main.py's does.
\<close>

theorem mappers_differ_in_emitted_variants:
  "(map_catalogiq_to_shopify names_iter values_iter p = Inr a \<and>
    map_catalogiq_to_shopify_mian names_iter values_iter p = Inr b \<longrightarrow>
      (\<exists>title d d' mfs.
         py_get p ''description_sale'' JNull = Inr d \<and>
         py_get p ''description_sale'' (JStr '''') = Inr d' \<and>
         a = JDict [(''title'', title),
               (''vendor'', JStr ''Vendor Name''),
               (''descriptionHtml'', if py_truthy d then d' else JStr ''''),
               (''productOptions'', JList (map (mapped_option values_iter (variants_of p))
                   (names_iter (option_names_of p)))),
               (''variants'', JList (map (mapped_variant (names_iter (option_names_of p)))
                   (variants_of p))),
               (''metafields'', JList mfs)] \<and>
         b = JDict [(''title'', title),
               (''vendor'', JStr ''Vendor Name''),
               (''descriptionHtml'', d'),
               (''productOptions'', JList (map (mapped_option values_iter (variants_of p))
                   (names_iter (option_names_of p)))),
               (''variants'', JList (map (mapped_variant (names_iter (option_names_of p)))
                   (take 99 (variants_of p)))),
               (''metafields'', JList mfs)])) \<and>
   (py_getitem p ''variants'' = Inr (JList vs) \<and>
    map_catalogiq_to_shopify names_iter values_iter p = Inr a \<longrightarrow>
      (\<exists>b'. map_catalogiq_to_shopify_mian names_iter values_iter p = Inr b'))"
proof (intro conjI impI)
  assume both: "map_catalogiq_to_shopify names_iter values_iter p = Inr a \<and>
    map_catalogiq_to_shopify_mian names_iter values_iter p = Inr b"
  from map_catalogiq_to_shopify_full [OF both [THEN conjunct1]] obtain title h mfs where
    a: "py_getitem p ''name'' = Inr title" "description_html p = Inr h"
      "metafields p = Inr mfs"
      "a = JDict [(''title'', title),
            (''vendor'', JStr ''Vendor Name''),
            (''descriptionHtml'', h),
            (''productOptions'', JList (map (mapped_option values_iter (variants_of p))
                (names_iter (option_names_of p)))),
            (''variants'', JList (map (mapped_variant (names_iter (option_names_of p)))
                (variants_of p))),
            (''metafields'', JList mfs)]"
    by blast
  from map_catalogiq_to_shopify_mian_full [OF both [THEN conjunct2]] a(1,3)
  obtain h' where
    b: "py_get p ''description_sale'' (JStr '''') = Inr h'"
      "b = JDict [(''title'', title),
            (''vendor'', JStr ''Vendor Name''),
            (''descriptionHtml'', h'),
            (''productOptions'', JList (map (mapped_option values_iter (variants_of p))
                (names_iter (option_names_of p)))),
            (''variants'', JList (map (mapped_variant (names_iter (option_names_of p)))
                (take 99 (variants_of p)))),
            (''metafields'', JList mfs)]"
    by auto
  from description_html_eq [OF a(2)] b(1) obtain d where
    d: "py_get p ''description_sale'' JNull = Inr d"
      "h = (if py_truthy d then h' else JStr '''')"
    by auto
  show "\<exists>title d d' mfs.
         py_get p ''description_sale'' JNull = Inr d \<and>
         py_get p ''description_sale'' (JStr '''') = Inr d' \<and>
         a = JDict [(''title'', title),
               (''vendor'', JStr ''Vendor Name''),
               (''descriptionHtml'', if py_truthy d then d' else JStr ''''),
               (''productOptions'', JList (map (mapped_option values_iter (variants_of p))
                   (names_iter (option_names_of p)))),
               (''variants'', JList (map (mapped_variant (names_iter (option_names_of p)))
                   (variants_of p))),
               (''metafields'', JList mfs)] \<and>
         b = JDict [(''title'', title),
               (''vendor'', JStr ''Vendor Name''),
               (''descriptionHtml'', d'),
               (''productOptions'', JList (map (mapped_option values_iter (variants_of p))
                   (names_iter (option_names_of p)))),
               (''variants'', JList (map (mapped_variant (names_iter (option_names_of p)))
                   (take 99 (variants_of p)))),
               (''metafields'', JList mfs)]"
    apply (rule exI [of _ title], rule exI [of _ d], rule exI [of _ h'], rule exI [of _ mfs])
    using a(4) b d by simp
next
  assume "py_getitem p ''variants'' = Inr (JList vs) \<and>
    map_catalogiq_to_shopify names_iter values_iter p = Inr a"
  then show "\<exists>b'. map_catalogiq_to_shopify_mian names_iter values_iter p = Inr b'"
    using mian_returns_when_main_does by blast
qed

theorem mappers_differ_in_emitted_variants_witness:
  "\<exists>a b.
     map_catalogiq_to_shopify id id hundred_variants = Inr a \<and>
     map_catalogiq_to_shopify_mian id id hundred_variants = Inr b \<and>
     (\<exists>title d d' mfs.
         py_get hundred_variants ''description_sale'' JNull = Inr d \<and>
         py_get hundred_variants ''description_sale'' (JStr '''') = Inr d' \<and>
         a = JDict [(''title'', title),
               (''vendor'', JStr ''Vendor Name''),
               (''descriptionHtml'', if py_truthy d then d' else JStr ''''),
               (''productOptions'', JList (map (mapped_option id (variants_of hundred_variants))
                   (id (option_names_of hundred_variants)))),
               (''variants'', JList (map (mapped_variant (id (option_names_of hundred_variants)))
                   (variants_of hundred_variants))),
               (''metafields'', JList mfs)] \<and>
         b = JDict [(''title'', title),
               (''vendor'', JStr ''Vendor Name''),
               (''descriptionHtml'', d'),
               (''productOptions'', JList (map (mapped_option id (variants_of hundred_variants))
                   (id (option_names_of hundred_variants)))),
               (''variants'', JList (map (mapped_variant (id (option_names_of hundred_variants)))
                   (take 99 (variants_of hundred_variants)))),
               (''metafields'', JList mfs)]) \<and>
     py_getitem a ''descriptionHtml'' = Inr (JStr '''') \<and>
     py_getitem b ''descriptionHtml'' = Inr JNull \<and>
     (\<exists>vs. py_getitem hundred_variants ''variants'' = Inr (JList vs)) \<and>
     (\<exists>b'. map_catalogiq_to_shopify_mian id id hundred_variants = Inr b')"
proof -
  have vs: "py_getitem hundred_variants ''variants'' =
      Inr (JList (replicate 99
                  (JDict [(''default_code'', JStr ''L-S''),
                          (''attributes'', JList
                             [JDict [(''name'', JStr ''Size''), (''value'', JStr ''S'')]])])
                @ [JDict [(''default_code'', JStr ''L-XL''),
                          (''attributes'', JList
                             [JDict [(''name'', JStr ''Size''), (''value'', JStr ''XL'')]])]]))"
    by (simp add: hundred_variants_def)
  note both = mappers_differ_in_emitted_variants
      [THEN conjunct1, THEN mp, OF conjI,
       OF hundred_variants_mapped hundred_variants_mapped_mian]
  note returns = mappers_differ_in_emitted_variants
      [THEN conjunct2, THEN mp, OF conjI, OF vs hundred_variants_mapped]
  show ?thesis
    apply (rule exI, rule exI)
    apply (rule conjI, rule hundred_variants_mapped)
    apply (rule conjI, rule hundred_variants_mapped_mian)
    apply (rule conjI, rule both)
    apply (rule conjI, simp)
    apply (rule conjI, simp)
    apply (rule conjI, rule exI, rule vs)
    apply (rule returns)
    done
qed

section \<open>Claims about one invocation\<close>

text \<open>
  C5: when the GET of the source catalog returns with a status other than 200,
  \<^verbatim>\<open>sync_products\<close> of main.py returns at once (line 292). The GET is the only event
  of the invocation: no product is submitted, no offset is published, no completion
  email is sent.
\<close>

theorem fetch_failure_stops:
  assumes "get_reply w offset = Inr r" and "status_code r \<noteq> 200"
  shows "\<exists>s. sync_products c w offset = Some (Inr JNull, s) \<and>
     trace s = [Get offset] \<and>
     submissions (trace s) = [] \<and> publications (trace s) = [] \<and>
     notifications (trace s) = 0"
  using assms
  by (simp add: sync_products_def requests_get_def initial_def emit_def)

theorem fetch_failure_stops_witness:
  "\<exists>r. get_reply failing_world 7 = Inr r \<and> status_code r \<noteq> 200 \<and>
     (\<exists>s. sync_products plain_wire failing_world 7 = Some (Inr JNull, s) \<and>
       trace s = [Get 7] \<and>
       submissions (trace s) = [] \<and> publications (trace s) = [] \<and>
       notifications (trace s) = 0)"
proof -
  have g: "get_reply failing_world 7 = Inr \<lparr>status_code = 500, json_body = Inl ValueError\<rparr>"
    by (simp add: failing_world_def)
  have c: "status_code \<lparr>status_code = 500, json_body = Inl ValueError\<rparr> \<noteq> 200"
    by simp
  note concl = fetch_failure_stops [OF g c, of plain_wire]
  show ?thesis
    apply (rule exI, rule conjI, rule g)
    apply (rule conjI, rule c)
    apply (rule concl)
    done
qed

text \<open>
  C6: when the GET returns status 200 and an empty \<^verbatim>\<open>results\<close> list, \<^verbatim>\<open>sync_products\<close>
  of main.py sends the completion email once and returns \<^verbatim>\<open>"Sync Complete!"\<close>; it
  submits no product and publishes no offset.
\<close>

theorem empty_page_completes:
  assumes "get_reply w offset = Inr r" and "status_code r = 200"
    and "json_body r = Inr product_data"
    and "py_getitem product_data ''results'' = Inr (JList [])"
  shows "\<exists>s. sync_products c w offset = Some (Inr (JStr ''Sync Complete!''), s) \<and>
     trace s = [Get offset, SendMail] \<and>
     notifications (trace s) = 1 \<and> publications (trace s) = [] \<and>
     submissions (trace s) = []"
  using assms
  by (simp add: sync_products_def requests_get_def initial_def emit_def
      send_completion_email_def)

theorem empty_page_completes_witness:
  "\<exists>r product_data.
     get_reply (page_world []) 7 = Inr r \<and> status_code r = 200 \<and>
     json_body r = Inr product_data \<and>
     py_getitem product_data ''results'' = Inr (JList []) \<and>
     (\<exists>s. sync_products plain_wire (page_world []) 7
            = Some (Inr (JStr ''Sync Complete!''), s) \<and>
       trace s = [Get 7, SendMail] \<and>
       notifications (trace s) = 1 \<and> publications (trace s) = [] \<and>
       submissions (trace s) = [])"
proof -
  let ?d = "JDict [(''results'', JList [])]"
  let ?r = "\<lparr>status_code = 200, json_body = Inr ?d\<rparr>"
  have g: "get_reply (page_world []) 7 = Inr ?r"
    by (simp add: page_world_def ok_reply_def)
  have c: "status_code ?r = 200" by simp
  have b: "json_body ?r = Inr ?d" by simp
  have p: "py_getitem ?d ''results'' = Inr (JList [])" by simp
  note concl = empty_page_completes [OF g c b p, of plain_wire]
  show ?thesis
    apply (rule exI, rule exI, rule conjI, rule g)
    apply (rule conjI, rule c)
    apply (rule conjI, rule b)
    apply (rule conjI, rule p)
    apply (rule concl)
    done
qed

text \<open>
  C8: \<^verbatim>\<open>check_operation_status\<close> returns exactly when a status query reports
  \<^verbatim>\<open>COMPLETE\<close>. If the first \<open>n\<close> replies report another status and the next reports
  \<^verbatim>\<open>COMPLETE\<close>, it returns after \<open>n + 1\<close> queries and \<open>n\<close> sleeps with the status
  \<^verbatim>\<open>COMPLETE\<close>, the \<^verbatim>\<open>id\<close> of the reported product (\<^verbatim>\<open>None\<close> when the product is
  \<^verbatim>\<open>null\<close>) and the \<^verbatim>\<open>userErrors\<close> of that reply. If it returns, this is how: the
  replies before the last reported another status, the last reported \<^verbatim>\<open>COMPLETE\<close>, and
  the triple is read from the last. If every reply reports a status other than
  \<^verbatim>\<open>COMPLETE\<close>, the loop never ends: there is no bound on the attempts and no timeout.
\<close>

theorem poller_returns_exactly_on_complete:
  "((\<forall>i<n. reports_pending (post_reply w (posts s + i))) \<and>
    reports_complete (post_reply w (posts s + n)) product user_errors \<longrightarrow>
      check_operation_status w operation_id s =
        Some (Inr (JStr ''COMPLETE'',
                   if product = JNull then JNull else field ''id'' product,
                   user_errors),
              polled operation_id n s)) \<and>
   (check_operation_status w operation_id s = Some (Inr (status, product_id, errors), s') \<longrightarrow>
      (\<exists>m p. (\<forall>i<m. reports_pending (post_reply w (posts s + i))) \<and>
         reports_complete (post_reply w (posts s + m)) p errors \<and>
         status = JStr ''COMPLETE'' \<and>
         product_id = (if p = JNull then JNull else field ''id'' p) \<and>
         s' = polled operation_id m s)) \<and>
   ((\<forall>i. reports_pending (post_reply w (posts s + i))) \<longrightarrow>
      check_operation_status w operation_id s = None)"
proof (intro conjI impI)
  assume "(\<forall>i<n. reports_pending (post_reply w (posts s + i))) \<and>
    reports_complete (post_reply w (posts s + n)) product user_errors"
  then show "check_operation_status w operation_id s =
        Some (Inr (JStr ''COMPLETE'',
                   if product = JNull then JNull else field ''id'' product,
                   user_errors),
              polled operation_id n s)"
    using check_operation_status_returns [of n w s product user_errors operation_id]
    unfolding if_JNull_field by blast
next
  assume "check_operation_status w operation_id s = Some (Inr (status, product_id, errors), s')"
  from check_operation_status_returned [OF this]
  show "\<exists>m p. (\<forall>i<m. reports_pending (post_reply w (posts s + i))) \<and>
         reports_complete (post_reply w (posts s + m)) p errors \<and>
         status = JStr ''COMPLETE'' \<and>
         product_id = (if p = JNull then JNull else field ''id'' p) \<and>
         s' = polled operation_id m s"
    unfolding if_JNull_field .
next
  assume "\<forall>i. reports_pending (post_reply w (posts s + i))"
  then show "check_operation_status w operation_id s = None"
    by (rule check_operation_status_diverges)
qed

theorem poller_returns_exactly_on_complete_witness:
  "reports_pending (post_reply slow_world (posts initial + 0)) \<and>
   reports_pending (post_reply slow_world (posts initial + 1)) \<and>
   reports_complete (post_reply slow_world (posts initial + 2))
     (JDict [(''id'', JStr ''gid://shopify/Product/1''), (''title'', JStr ''Lamp'')])
     (JList []) \<and>
   check_operation_status slow_world (JStr ''gid://shopify/ProductSetOperation/1'') initial =
     Some (Inr (JStr ''COMPLETE'', JStr ''gid://shopify/Product/1'', JList []),
           \<lparr>posts = 3,
            trace = [Post (ProductOperation (JStr ''gid://shopify/ProductSetOperation/1'')), Sleep,
                     Post (ProductOperation (JStr ''gid://shopify/ProductSetOperation/1'')), Sleep,
                     Post (ProductOperation (JStr ''gid://shopify/ProductSetOperation/1''))]\<rparr>) \<and>
   (\<forall>i. reports_pending (post_reply stuck_world (posts initial + i))) \<and>
   check_operation_status stuck_world (JStr ''gid://shopify/ProductSetOperation/1'') initial
     = None"
proof -
  let ?op = "JStr ''gid://shopify/ProductSetOperation/1''"
  let ?p = "JDict [(''id'', JStr ''gid://shopify/Product/1''), (''title'', JStr ''Lamp'')]"
  have p0: "reports_pending (post_reply slow_world (posts initial + 0))"
    and p1: "reports_pending (post_reply slow_world (posts initial + 1))"
    by (simp_all add: slow_world_def initial_def created_reply_pending)
  have pend: "\<forall>i<2. reports_pending (post_reply slow_world (posts initial + i))"
    by (simp add: slow_world_def initial_def created_reply_pending)
  have compl: "reports_complete (post_reply slow_world (posts initial + 2)) ?p (JList [])"
    by (simp add: slow_world_def initial_def complete_reply_complete)
  have stuck: "\<forall>i. reports_pending (post_reply stuck_world (posts initial + i))"
    by (simp add: stuck_world_def created_reply_pending)
  note thm1 = poller_returns_exactly_on_complete
    [of 2 slow_world initial ?p "JList []" ?op, THEN conjunct1, THEN mp, OF conjI,
     OF pend compl]
  note thm3 = poller_returns_exactly_on_complete
    [of _ stuck_world initial _ _ ?op, THEN conjunct2, THEN conjunct2, THEN mp, OF stuck]
  have "check_operation_status slow_world ?op initial =
     Some (Inr (JStr ''COMPLETE'', JStr ''gid://shopify/Product/1'', JList []),
           \<lparr>posts = 3, trace = [Post (ProductOperation ?op), Sleep,
                     Post (ProductOperation ?op), Sleep, Post (ProductOperation ?op)]\<rparr>)"
    using thm1 by (simp add: polled_def initial_def field_def numeral_2_eq_2)
  with p0 p1 compl stuck thm3 show ?thesis by simp
qed

text \<open>
  C10: for every integer \<open>n\<close> (negative ones included), \<^verbatim>\<open>publish_offset(n)\<close> publishes
  the UTF-8 bytes of the JSON text of \<^verbatim>\<open>{"offset": str(n)}\<close>, and when Pub/Sub delivers
  these bytes as an event, \<^verbatim>\<open>process_product\<close> decodes exactly \<open>n\<close> from it and calls
  \<^verbatim>\<open>sync_products\<close> with \<open>n\<close>. \<^verbatim>\<open>str\<close> and \<^verbatim>\<open>int\<close> are modelled; of the JSON, UTF-8
  and base64 functions only the documented round trip is used (\<open>wire_roundtrip\<close>).
\<close>

theorem published_offset_round_trips:
  assumes "wire_roundtrip c"
  shows "trace (snd (publish_offset c w n s)) = trace s @ [Publish (offset_message c n)] \<and>
     decode_offset c (pubsub_event c (offset_message c n)) = Inr n \<and>
     process_product c w' (pubsub_event c (offset_message c n)) =
       (case sync_products c w' n of
          None \<Rightarrow> None
        | Some (r, s') \<Rightarrow> Some (case r of Inl e \<Rightarrow> Inl e | Inr x \<Rightarrow> Inr JNull, s'))"
  using decode_offset_roundtrip [OF assms, of n]
  by (simp add: publish_offset_def emit_def process_product_def)

theorem published_offset_round_trips_witness:
  "wire_roundtrip plain_wire \<and>
   trace (snd (publish_offset plain_wire failing_world 42 initial))
     = trace initial @ [Publish (offset_message plain_wire 42)] \<and>
   decode_offset plain_wire (pubsub_event plain_wire (offset_message plain_wire 42)) = Inr 42 \<and>
   process_product plain_wire failing_world
       (pubsub_event plain_wire (offset_message plain_wire 42)) =
     (case sync_products plain_wire failing_world 42 of
        None \<Rightarrow> None
      | Some (r, s') \<Rightarrow> Some (case r of Inl e \<Rightarrow> Inl e | Inr x \<Rightarrow> Inr JNull, s'))"
proof -
  note concl = published_offset_round_trips
    [OF wire_roundtrip_plain_wire, of failing_world 42 initial failing_world]
  show ?thesis
    apply (rule conjI, rule wire_roundtrip_plain_wire)
    apply (rule concl)
    done
qed

text \<open>
  C7 on main.py, where the loop over the page wraps each record in \<^verbatim>\<open>try\<close> (lines
  305-312): for every non-empty page, if no poll goes on forever, \<^verbatim>\<open>sync_products\<close>
  returns or raises only in \<^verbatim>\<open>publisher.publish\<close>, having submitted every record that the
  mapper maps, in the order of the page, whatever happened to the others; the last event is
  the one publication, of the message for \<open>offset + 1\<close>.
\<close>

lemma main_page_processed_and_offset_published:
  assumes "get_reply w offset = Inr r" and "status_code r = 200"
    and "json_body r = Inr product_data"
    and "py_getitem product_data ''results'' = Inr (JList page)" and "page \<noteq> []"
    and "polls_settle w"
  shows "\<exists>res s. sync_products c w offset = Some (res, s) \<and>
     submissions (trace s) = concat (map (mappable w) page) \<and>
     publications (trace s) = [offset_message c (offset + 1)] \<and>
     last (trace s) = Publish (offset_message c (offset + 1)) \<and>
     notifications (trace s) = 0"
proof -
  let ?s1 = "emit (Get offset) initial"
  from process_page_trace [OF assms(6), of page ?s1] obtain s2 where
    2: "process_page w page ?s1 = Some s2"
    "submissions (trace s2) = submissions (trace ?s1) @ concat (map (mappable w) page)"
    "publications (trace s2) = publications (trace ?s1)"
    "notifications (trace s2) = notifications (trace ?s1)"
    by blast
  have s1: "submissions (trace ?s1) = []" "publications (trace ?s1) = []"
    "notifications (trace ?s1) = 0"
    by (simp_all add: emit_def initial_def)
  obtain r3 s3 where 3: "publish_offset c w (offset + 1) s2 = (r3, s3)"
    by (cases "publish_offset c w (offset + 1) s2")
  then have t3: "trace s3 = trace s2 @ [Publish (offset_message c (offset + 1))]"
    by (auto simp: publish_offset_def emit_def)
  from assms(1-5) 2(1) 3
  have "\<exists>res. sync_products c w offset = Some (res, s3)"
    by (cases r3) (simp_all add: sync_products_def requests_get_def)
  with t3 2 s1 show ?thesis by auto
qed

text \<open>
  The same page in both entry points: a record without \<^verbatim>\<open>name\<close>, then a well-formed
  one. main.py submits the second record and publishes offset 1.
\<close>

lemma main_page_with_bad_record:
  "sync_products plain_wire (page_world [nameless_product, plain_product]) 0 =
     Some (Inr (JStr ''Product Complete!''),
       \<lparr>posts = 1,
        trace = [Get 0,
                 Post (ProductSet
                   (JDict [(''title'', JStr ''Lamp''), (''vendor'', JStr ''Vendor Name''),
                           (''descriptionHtml'', JStr ''''), (''productOptions'', JList []),
                           (''variants'', JList []), (''metafields'', JList [])])),
                 Publish (offset_message plain_wire 1)]\<rparr>)"
  by (simp add: sync_products_def initial_def requests_get_def emit_def page_world_def
      ok_reply_def sync_products_to_shopify_def submit_product_def sbind_requests_post
      nameless_product_raises plain_product_mapped publish_offset_def)

text \<open>
  C7 on mian.py (lines 251-258): the loop over the page has no \<^verbatim>\<open>try\<close>, and the mapper
  is called before the \<^verbatim>\<open>try\<close> of \<^verbatim>\<open>sync_products_to_shopify\<close> (line 101). On the page
  above, mian.py as it is raises \<^verbatim>\<open>NameError\<close> at line 232 before it fetches anything;
  with \<^verbatim>\<open>access_token\<close> bound, the \<^verbatim>\<open>KeyError\<close> of the first record ends the
  invocation: the second record is not submitted and no offset is published.
\<close>

theorem mian_page_aborts_on_bad_record:
  "sync_products_mian plain_wire (page_world [nameless_product, plain_product]) None 0
     = (Inl NameError, \<lparr>posts = 0, trace = []\<rparr>) \<and>
   sync_products_mian plain_wire (page_world [nameless_product, plain_product])
       (Some (JStr ''token'')) 0
     = (Inl KeyError, \<lparr>posts = 0, trace = [Get 0]\<rparr>)"
  by (simp add: sync_products_mian_def initial_def requests_get_def emit_def page_world_def
      ok_reply_def sbind_def lift_def sync_products_to_shopify_mian_def
      submit_product_mian_def nameless_product_raises)

end
